theory Spec2Isabelle
  imports Main "HOL-Library.AList" "HOL-Library.Char_ord" "HOL-Library.List_Lexorder"
begin

section \<open>Common: errors and HTTP responses\<close>

text \<open>
  Both scripts talk to a remote service with \<^verbatim>\<open>requests\<close> and decode JSON bodies.
  A response is modelled by what the code reads of it: whether its status is a success
  (\<^verbatim>\<open>raise_for_status\<close> raises \<^verbatim>\<open>HTTPError\<close> otherwise) and the decoded body.
  Every exception the modelled code can raise is a value of \<open>error\<close>.
\<close>

datatype json =
    JNull
  | JBool bool
  | JNum int
  | JStr string
  | JArr "json list"
  | JObj "(string \<times> json) list"

datatype error =
    HTTPError
  | KeyError string
  | NotADirectory
  | UnrecognizedReportType json

datatype 'a response = Response (status_ok: bool) (body: 'a)

text \<open>\<^verbatim>\<open>_raise_for_status(response)\<close>: logs the response text and re-raises on a failure status.\<close>

definition raise_for_status :: "'a response \<Rightarrow> error + unit" where
  "raise_for_status response = (if status_ok response then Inr () else Inl HTTPError)"

section \<open>xray/reports.py\<close>

subsection \<open>The paginated enumerator\<close>

text \<open>
  A report definition is a JSON object (\<^verbatim>\<open>dict[str, Any]\<close>). The body of a page is
  the JSON object \<^verbatim>\<open>result\<close>, of which the code reads \<^verbatim>\<open>result.get("reports", [])\<close>:
  \<open>None\<close> stands for a body without that field.
\<close>

type_synonym report_definition = "string \<rightharpoonup> json"

type_synonym summary = "json \<times> json \<times> report_definition"

text \<open>
  The state of a run of the generator, as its consumer sees it: the tuples yielded so far
  and the page numbers requested so far, both in order.
\<close>

record generator_state =
  yielded :: "summary list"
  fetched :: "nat list"

text \<open>
  \<^verbatim>\<open>for definition in reports: yield definition["id"], definition["name"], definition\<close>.
  A missing field raises \<^verbatim>\<open>KeyError\<close> after the earlier tuples have been yielded.
\<close>

fun yield_reports :: "report_definition list \<Rightarrow> summary list \<Rightarrow> summary list \<times> error option" where
  "yield_reports [] out = (out, None)"
| "yield_reports (definition # reports) out =
     (case definition ''id'' of
        None \<Rightarrow> (out, Some (KeyError ''id''))
      | Some report_id \<Rightarrow>
          (case definition ''name'' of
             None \<Rightarrow> (out, Some (KeyError ''name''))
           | Some report_name \<Rightarrow>
               yield_reports reports (out @ [(report_id, report_name, definition)])))"

text \<open>\<^verbatim>\<open>reports = result.get("reports", [])\<close>: the records of a page.\<close>

definition reports_of :: "report_definition list option response \<Rightarrow> report_definition list" where
  "reports_of response = (case body response of None \<Rightarrow> [] | Some reports \<Rightarrow> reports)"

text \<open>
  The \<^verbatim>\<open>while True\<close> loop of \<^verbatim>\<open>_report_summaries_generator\<close>. The argument \<open>post\<close> is the
  remote service: the response to the request for page \<open>page_num\<close>. The loop need not
  end (a service that never sends an empty page), so it is a partial function: \<open>None\<close>
  is a run that never finishes; \<open>Some (st, None)\<close> is a generator that is exhausted,
  \<open>Some (st, Some e)\<close> one that raised \<open>e\<close>.
\<close>

partial_function (option) report_summaries_loop ::
  "(nat \<Rightarrow> report_definition list option response) \<Rightarrow> nat \<Rightarrow> generator_state \<Rightarrow>
   (generator_state \<times> error option) option"
where
  "report_summaries_loop post page_num st =
     (case raise_for_status (post page_num) of
        Inl e \<Rightarrow> Some (st\<lparr>fetched := fetched st @ [page_num]\<rparr>, Some e)
      | Inr _ \<Rightarrow>
          if reports_of (post page_num) = []
          then Some (st\<lparr>fetched := fetched st @ [page_num]\<rparr>, None)
          else
            (case yield_reports (reports_of (post page_num)) (yielded st) of
               (out, Some e) \<Rightarrow>
                 Some (\<lparr>yielded = out, fetched = fetched st @ [page_num]\<rparr>, Some e)
             | (out, None) \<Rightarrow>
                 report_summaries_loop post (page_num + 1)
                   \<lparr>yielded = out, fetched = fetched st @ [page_num]\<rparr>))"

definition report_summaries_generator ::
  "(nat \<Rightarrow> report_definition list option response) \<Rightarrow> (generator_state \<times> error option) option" where
  "report_summaries_generator post =
     report_summaries_loop post 1 \<lparr>yielded = [], fetched = []\<rparr>"

text \<open>
  The tuple yielded for a definition that has both fields, and the test that it has them.
\<close>

definition summary_of :: "report_definition \<Rightarrow> summary" where
  "summary_of d = (the (d ''id''), the (d ''name''), d)"

definition has_id_name :: "report_definition \<Rightarrow> bool" where
  "has_id_name d \<longleftrightarrow> d ''id'' \<noteq> None \<and> d ''name'' \<noteq> None"

subsection \<open>import_definitions\<close>

text \<open>\<^verbatim>\<open>d[k]\<close> on a dictionary: the value, or \<^verbatim>\<open>KeyError\<close>.\<close>

definition getitem :: "(string \<rightharpoonup> 'v) \<Rightarrow> string \<Rightarrow> error + 'v" where
  "getitem d k = (case d k of None \<Rightarrow> Inl (KeyError k) | Some v \<Rightarrow> Inr v)"

text \<open>
  The \<^verbatim>\<open>if\<close>/\<^verbatim>\<open>elif\<close> chain on \<^verbatim>\<open>report_type\<close>, which ends in
  \<^verbatim>\<open>raise Exception(f"Unrecognized report type: {report_type}")\<close>.
\<close>

definition uri_type_of :: "json \<Rightarrow> error + string" where
  "uri_type_of report_type =
     (if report_type = JStr ''license'' then Inr ''licenses''
      else if report_type = JStr ''vulnerability'' then Inr ''vulnerabilities''
      else if report_type = JStr ''operational_risk'' then Inr ''operationalRisks''
      else Inl (UnrecognizedReportType report_type))"

text \<open>
  The body of the loop over the definition files, for one decoded file. The service is
  \<open>post\<close>: the response to the submission of a payload to the endpoint
  \<^verbatim>\<open>/xray/api/v1/reports/{uri_type}\<close>. The state is the list of submissions made so far,
  each an endpoint and a payload; the second component of the result is the exception
  raised, if any.
\<close>

type_synonym submission = "string \<times> report_definition"

definition import_definition ::
  "(string \<Rightarrow> report_definition \<Rightarrow> unit response) \<Rightarrow> report_definition \<Rightarrow> submission list \<Rightarrow>
   submission list \<times> error option" where
  "import_definition post definition submitted =
     (case getitem definition ''report_type'' of
        Inl e \<Rightarrow> (submitted, Some e)
      | Inr report_type \<Rightarrow>
          (case uri_type_of report_type of
             Inl e \<Rightarrow> (submitted, Some e)
           | Inr uri_type \<Rightarrow>
               (submitted @ [(uri_type, definition)],
                (case raise_for_status (post uri_type definition) of
                   Inl e \<Rightarrow> Some e
                 | Inr _ \<Rightarrow> None))))"

fun import_loop ::
  "(string \<Rightarrow> report_definition \<Rightarrow> unit response) \<Rightarrow> report_definition list \<Rightarrow> submission list \<Rightarrow>
   submission list \<times> error option" where
  "import_loop post [] submitted = (submitted, None)"
| "import_loop post (definition # definition_files) submitted =
     (case import_definition post definition submitted of
        (submitted', Some e) \<Rightarrow> (submitted', Some e)
      | (submitted', None) \<Rightarrow> import_loop post definition_files submitted')"

text \<open>
  \<^verbatim>\<open>import_definitions\<close>: the input directory is given by whether it is a directory and by
  the decoded contents of its \<^verbatim>\<open>*.json\<close> files, in the order \<^verbatim>\<open>rglob\<close> lists them.
\<close>

definition import_definitions ::
  "bool \<Rightarrow> (string \<Rightarrow> report_definition \<Rightarrow> unit response) \<Rightarrow> report_definition list \<Rightarrow>
   submission list \<times> error option" where
  "import_definitions is_dir post definition_files =
     (if \<not> is_dir then ([], Some NotADirectory) else import_loop post definition_files [])"

section \<open>artifactory/sites_diff.py\<close>

subsection \<open>Data\<close>

text \<open>
  An item of a listing is a JSON object; the fields the code reads of it (\<^verbatim>\<open>key\<close>,
  \<^verbatim>\<open>type\<close>, \<^verbatim>\<open>uri\<close>, \<^verbatim>\<open>sha1\<close>, \<^verbatim>\<open>sha2\<close>) are strings. A dictionary that the code builds
  is an association list in insertion order, as a Python \<^verbatim>\<open>dict\<close> is: \<open>map_of\<close> looks a
  key up and \<open>AList.update\<close> assigns to a key, in place when the key is there and at the
  end when it is new.

  A site stands for a pair of a URL and a token: the response to the request for its
  repositories, and for each repository the response to the request for its file list,
  whose body is a JSON object of which the code reads \<^verbatim>\<open>["files"]\<close> (\<open>None\<close>: no such
  field).
\<close>

type_synonym item = "string \<rightharpoonup> string"

type_synonym ('k, 'v) dict = "('k \<times> 'v) list"

record site =
  repositories_api :: "item list response"
  storage_api :: "string \<Rightarrow> item list option response"

text \<open>
  The report. A per-repository record maps \<^verbatim>\<open>missing_in_1\<close>, \<^verbatim>\<open>missing_in_2\<close> and
  \<^verbatim>\<open>diffs\<close> to lists of paths; \<open>report_artifacts\<close> is \<open>None\<close> for Python's \<^verbatim>\<open>None\<close>.
\<close>

type_synonym repository_report = "(string, string list) dict"

type_synonym artifacts_report = "(string, repository_report) dict"

record repositories_section =
  report_missing_in_1 :: "string list"
  report_missing_in_2 :: "string list"
  report_rclass_mismatch :: "string list"

record report =
  report_repositories :: repositories_section
  report_artifacts :: "artifacts_report option"

text \<open>
  Python does not fix the order in which a \<^verbatim>\<open>set\<close> is iterated. The model takes that
  order as a parameter \<open>iter\<close>, which lists the elements of a set; it is used wherever
  the code iterates a set or turns it into a list. All that is known of it is that it
  lists each element of a finite set once.
\<close>

definition set_iteration :: "(string set \<Rightarrow> string list) \<Rightarrow> bool" where
  "set_iteration iter \<longleftrightarrow> (\<forall>S. finite S \<longrightarrow> set (iter S) = S \<and> distinct (iter S))"

subsection \<open>Fetching\<close>

text \<open>\<^verbatim>\<open>{item[field]: item for item in items}\<close>, started from the dictionary \<open>d\<close>.\<close>

fun dict_comprehension ::
  "string \<Rightarrow> item list \<Rightarrow> (string, item) dict \<Rightarrow> error + (string, item) dict" where
  "dict_comprehension field [] d = Inr d"
| "dict_comprehension field (item # items) d =
     (case getitem item field of
        Inl e \<Rightarrow> Inl e
      | Inr k \<Rightarrow> dict_comprehension field items (AList.update k item d))"

text \<open>\<^verbatim>\<open>_repository_keys(url, token)\<close>\<close>

definition repository_keys :: "site \<Rightarrow> error + (string, item) dict" where
  "repository_keys site =
     (case raise_for_status (repositories_api site) of
        Inl e \<Rightarrow> Inl e
      | Inr _ \<Rightarrow> dict_comprehension ''key'' (body (repositories_api site)) [])"

text \<open>\<^verbatim>\<open>_list_items(url, token, repository)\<close>\<close>

definition list_items :: "site \<Rightarrow> string \<Rightarrow> error + (string, item) dict" where
  "list_items site repository =
     (case raise_for_status (storage_api site repository) of
        Inl e \<Rightarrow> Inl e
      | Inr _ \<Rightarrow>
          (case body (storage_api site repository) of
             None \<Rightarrow> Inl (KeyError ''files'')
           | Some files \<Rightarrow> dict_comprehension ''uri'' files []))"

subsection \<open>Repositories\<close>

text \<open>\<^verbatim>\<open>repositories[key]["type"]\<close>\<close>

definition repository_type :: "(string, item) dict \<Rightarrow> string \<Rightarrow> error + string" where
  "repository_type repository_dict key =
     (case getitem (map_of repository_dict) key of
        Inl e \<Rightarrow> Inl e
      | Inr repository \<Rightarrow> getitem repository ''type'')"

text \<open>The first loop over \<^verbatim>\<open>exists_in_both\<close>, which fills \<^verbatim>\<open>rclass_mismatch\<close>.\<close>

fun rclass_mismatch_loop ::
  "(string, item) dict \<Rightarrow> (string, item) dict \<Rightarrow> string list \<Rightarrow> string list \<Rightarrow>
   error + string list" where
  "rclass_mismatch_loop repositories_1 repositories_2 [] rclass_mismatch = Inr rclass_mismatch"
| "rclass_mismatch_loop repositories_1 repositories_2 (key # keys) rclass_mismatch =
     (case repository_type repositories_1 key of
        Inl e \<Rightarrow> Inl e
      | Inr rclass_1 \<Rightarrow>
          (case repository_type repositories_2 key of
             Inl e \<Rightarrow> Inl e
           | Inr rclass_2 \<Rightarrow>
               rclass_mismatch_loop repositories_1 repositories_2 keys
                 (if rclass_1 \<noteq> rclass_2 then rclass_mismatch @ [key] else rclass_mismatch)))"

subsection \<open>Artifacts\<close>

text \<open>
  \<^verbatim>\<open>_artifacts_report()\<close> is \<^verbatim>\<open>artifacts_report.setdefault(key, {})\<close>: the record of \<open>key\<close>,
  a new empty one when there is none. The code then changes the record it gets in place;
  the model writes the changed record back under \<open>key\<close>.
\<close>

definition artifacts_report_entry :: "artifacts_report \<Rightarrow> string \<Rightarrow> repository_report" where
  "artifacts_report_entry artifacts_report key =
     (case map_of artifacts_report key of None \<Rightarrow> [] | Some entry \<Rightarrow> entry)"

text \<open>\<^verbatim>\<open>_artifacts_report()[field] = uris\<close>\<close>

definition set_field ::
  "string \<Rightarrow> string \<Rightarrow> string list \<Rightarrow> artifacts_report \<Rightarrow> artifacts_report" where
  "set_field key field uris artifacts_report =
     AList.update key
       (AList.update field uris (artifacts_report_entry artifacts_report key)) artifacts_report"

text \<open>\<^verbatim>\<open>_artifacts_report().setdefault("diffs", []).append(uri)\<close>\<close>

definition append_diff :: "string \<Rightarrow> string \<Rightarrow> artifacts_report \<Rightarrow> artifacts_report" where
  "append_diff key uri artifacts_report =
     (let entry = artifacts_report_entry artifacts_report key;
          diffs = (case map_of entry ''diffs'' of None \<Rightarrow> [] | Some uris \<Rightarrow> uris)
      in AList.update key (AList.update ''diffs'' (diffs @ [uri]) entry) artifacts_report)"

text \<open>
  \<^verbatim>\<open>item_in_1["sha1"] != item_in_2["sha1"] or item_in_1["sha2"] != item_in_2["sha2"]\<close>:
  the second comparison is evaluated only when the first is false.
\<close>

definition differs :: "item \<Rightarrow> item \<Rightarrow> error + bool" where
  "differs item_in_1 item_in_2 =
     (case getitem item_in_1 ''sha1'' of Inl e \<Rightarrow> Inl e | Inr sha1_1 \<Rightarrow>
     (case getitem item_in_2 ''sha1'' of Inl e \<Rightarrow> Inl e | Inr sha1_2 \<Rightarrow>
        if sha1_1 \<noteq> sha1_2 then Inr True
        else
          (case getitem item_in_1 ''sha2'' of Inl e \<Rightarrow> Inl e | Inr sha2_1 \<Rightarrow>
          (case getitem item_in_2 ''sha2'' of Inl e \<Rightarrow> Inl e | Inr sha2_2 \<Rightarrow>
             Inr (sha2_1 \<noteq> sha2_2)))))"

text \<open>The loop over \<^verbatim>\<open>items_existing_in_both\<close>.\<close>

fun diffs_loop ::
  "(string, item) dict \<Rightarrow> (string, item) dict \<Rightarrow> string \<Rightarrow> string list \<Rightarrow> artifacts_report \<Rightarrow>
   error + artifacts_report" where
  "diffs_loop items_in_1 items_in_2 key [] artifacts_report = Inr artifacts_report"
| "diffs_loop items_in_1 items_in_2 key (uri # uris) artifacts_report =
     (case getitem (map_of items_in_1) uri of Inl e \<Rightarrow> Inl e | Inr item_in_1 \<Rightarrow>
     (case getitem (map_of items_in_2) uri of Inl e \<Rightarrow> Inl e | Inr item_in_2 \<Rightarrow>
     (case differs item_in_1 item_in_2 of Inl e \<Rightarrow> Inl e | Inr d \<Rightarrow>
        diffs_loop items_in_1 items_in_2 key uris
          (if d then append_diff key uri artifacts_report else artifacts_report))))"

text \<open>
  The body of the second loop over \<^verbatim>\<open>exists_in_both\<close>, after the test of the type: the
  comparison of the artifacts of one repository.
\<close>

definition compare_repository ::
  "(string set \<Rightarrow> string list) \<Rightarrow> site \<Rightarrow> site \<Rightarrow> string \<Rightarrow> artifacts_report \<Rightarrow>
   error + artifacts_report" where
  "compare_repository iter site_1 site_2 key artifacts_report =
     (case list_items site_1 key of Inl e \<Rightarrow> Inl e | Inr items_in_1 \<Rightarrow>
     (case list_items site_2 key of Inl e \<Rightarrow> Inl e | Inr items_in_2 \<Rightarrow>
        (let items_in_1_uris = set (map fst items_in_1);
             items_in_2_uris = set (map fst items_in_2);
             missing_in_1_uris = items_in_2_uris - items_in_1_uris;
             missing_in_2_uris = items_in_1_uris - items_in_2_uris;
             artifacts_report =
               (if missing_in_1_uris \<noteq> {}
                then set_field key ''missing_in_1'' (iter missing_in_1_uris) artifacts_report
                else artifacts_report);
             artifacts_report =
               (if missing_in_2_uris \<noteq> {}
                then set_field key ''missing_in_2'' (iter missing_in_2_uris) artifacts_report
                else artifacts_report);
             items_existing_in_both = items_in_1_uris \<inter> items_in_2_uris
         in diffs_loop items_in_1 items_in_2 key (iter items_existing_in_both) artifacts_report)))"

text \<open>The second loop over \<^verbatim>\<open>exists_in_both\<close>; the first branch is its \<^verbatim>\<open>continue\<close>.\<close>

fun artifacts_loop ::
  "(string set \<Rightarrow> string list) \<Rightarrow> site \<Rightarrow> site \<Rightarrow> (string, item) dict \<Rightarrow> string list \<Rightarrow>
   artifacts_report \<Rightarrow> error + artifacts_report" where
  "artifacts_loop iter site_1 site_2 repositories_1 [] artifacts_report = Inr artifacts_report"
| "artifacts_loop iter site_1 site_2 repositories_1 (key # keys) artifacts_report =
     (case repository_type repositories_1 key of
        Inl e \<Rightarrow> Inl e
      | Inr rclass \<Rightarrow>
          if rclass \<in> {''VIRTUAL'', ''REMOTE''}
          then artifacts_loop iter site_1 site_2 repositories_1 keys artifacts_report
          else
            (case compare_repository iter site_1 site_2 key artifacts_report of
               Inl e \<Rightarrow> Inl e
             | Inr artifacts_report' \<Rightarrow>
                 artifacts_loop iter site_1 site_2 repositories_1 keys artifacts_report'))"

subsection \<open>diff\<close>

text \<open>
  \<^verbatim>\<open>diff(url_1, url_2, token_1, token_2, exclude_artifacts)\<close>. The result is the report
  that the code prints, or the exception that ends the run. The calls of the logger are
  left out.
\<close>

definition diff ::
  "(string set \<Rightarrow> string list) \<Rightarrow> site \<Rightarrow> site \<Rightarrow> bool \<Rightarrow> error + report" where
  "diff iter site_1 site_2 exclude_artifacts =
     (case repository_keys site_1 of Inl e \<Rightarrow> Inl e | Inr repositories_1 \<Rightarrow>
     (case repository_keys site_2 of Inl e \<Rightarrow> Inl e | Inr repositories_2 \<Rightarrow>
        (let repositories_1_keys = set (map fst repositories_1);
             repositories_2_keys = set (map fst repositories_2);
             missing_in_1 = repositories_2_keys - repositories_1_keys;
             missing_in_2 = repositories_1_keys - repositories_2_keys;
             exists_in_both = repositories_1_keys \<inter> repositories_2_keys
         in
          (case rclass_mismatch_loop repositories_1 repositories_2 (iter exists_in_both) [] of
             Inl e \<Rightarrow> Inl e
           | Inr rclass_mismatch \<Rightarrow>
               (case (if \<not> exclude_artifacts
                      then (case artifacts_loop iter site_1 site_2 repositories_1
                                   (iter exists_in_both) [] of
                              Inl e \<Rightarrow> Inl e
                            | Inr artifacts_report \<Rightarrow> Inr (Some artifacts_report))
                      else Inr None) of
                  Inl e \<Rightarrow> Inl e
                | Inr artifacts_report \<Rightarrow>
                    Inr \<lparr>report_repositories =
                           \<lparr>report_missing_in_1 = iter missing_in_1,
                            report_missing_in_2 = iter missing_in_2,
                            report_rclass_mismatch = rclass_mismatch\<rparr>,
                         report_artifacts = artifacts_report\<rparr>)))))"

text \<open>
  Reading the report: the list stored under a field of the record of a repository, empty
  when the artifacts section, the record or the field is not there.
\<close>

definition artifact_field :: "report \<Rightarrow> string \<Rightarrow> string \<Rightarrow> string list" where
  "artifact_field r key field =
     (case report_artifacts r of
        None \<Rightarrow> []
      | Some artifacts_report \<Rightarrow>
          (case map_of (artifacts_report_entry artifacts_report key) field of
             None \<Rightarrow> []
           | Some uris \<Rightarrow> uris))"

subsection \<open>What a run stores, as functions of the listings\<close>

text \<open>
  These functions are not in the source: they describe the result of its loops, and the
  lemmas below prove that the loops compute them. \<open>content_differs\<close> is the test of the
  hashes of a path on the two sides, without the exceptions; \<open>repository_entry\<close> is the
  record that the comparison of one repository leaves in the artifacts map, and
  \<open>expected_entry\<close> what the map holds for a repository after the whole loop.
\<close>

definition content_differs :: "(string, item) dict \<Rightarrow> (string, item) dict \<Rightarrow> string \<Rightarrow> bool" where
  "content_differs items_in_1 items_in_2 uri =
     (case (map_of items_in_1 uri, map_of items_in_2 uri) of
        (Some item_in_1, Some item_in_2) \<Rightarrow>
          item_in_1 ''sha1'' \<noteq> item_in_2 ''sha1'' \<or> item_in_1 ''sha2'' \<noteq> item_in_2 ''sha2''
      | _ \<Rightarrow> False)"

definition entry_diffs :: "artifacts_report \<Rightarrow> string \<Rightarrow> string list" where
  "entry_diffs ar key =
     (case map_of (artifacts_report_entry ar key) ''diffs'' of None \<Rightarrow> [] | Some uris \<Rightarrow> uris)"

definition repository_entry ::
  "(string set \<Rightarrow> string list) \<Rightarrow> (string, item) dict \<Rightarrow> (string, item) dict \<Rightarrow> repository_report" where
  "repository_entry iter items_in_1 items_in_2 =
     (let uris_1 = set (map fst items_in_1);
          uris_2 = set (map fst items_in_2);
          diffs = filter (content_differs items_in_1 items_in_2) (iter (uris_1 \<inter> uris_2))
      in (if uris_2 - uris_1 \<noteq> {} then [(''missing_in_1'', iter (uris_2 - uris_1))] else []) @
         (if uris_1 - uris_2 \<noteq> {} then [(''missing_in_2'', iter (uris_1 - uris_2))] else []) @
         (if diffs \<noteq> [] then [(''diffs'', diffs)] else []))"

definition expected_entry ::
  "(string set \<Rightarrow> string list) \<Rightarrow> site \<Rightarrow> site \<Rightarrow> (string, item) dict \<Rightarrow> string \<Rightarrow>
   repository_report option" where
  "expected_entry iter site_1 site_2 repositories_1 key =
     (case repository_type repositories_1 key of
        Inl e \<Rightarrow> None
      | Inr rclass \<Rightarrow>
          if rclass \<in> {''VIRTUAL'', ''REMOTE''} then None
          else
            (case list_items site_1 key of
               Inl e \<Rightarrow> None
             | Inr items_in_1 \<Rightarrow>
                 (case list_items site_2 key of
                    Inl e \<Rightarrow> None
                  | Inr items_in_2 \<Rightarrow>
                      if repository_entry iter items_in_1 items_in_2 = [] then None
                      else Some (repository_entry iter items_in_1 items_in_2))))"

section \<open>Concrete inputs\<close>

text \<open>
  Three report definitions and a service with the pages \<open>[record_1, record_2]\<close>, \<open>[record_3]\<close>, \<open>[]\<close>; every
  request after the third fails.
\<close>

definition record_1 :: report_definition where
  "record_1 = [''id'' \<mapsto> JNum 1, ''name'' \<mapsto> JStr ''a'', ''report_type'' \<mapsto> JStr ''license'']"

definition record_2 :: report_definition where
  "record_2 = [''id'' \<mapsto> JNum 2, ''name'' \<mapsto> JStr ''b'', ''report_type'' \<mapsto> JStr ''vulnerability'']"

definition record_3 :: report_definition where
  "record_3 = [''id'' \<mapsto> JNum 3, ''name'' \<mapsto> JStr ''c'', ''report_type'' \<mapsto> JStr ''operational_risk'']"

definition three_pages :: "nat \<Rightarrow> report_definition list option response" where
  "three_pages p =
     (if p = 1 then Response True (Some [record_1, record_2])
      else if p = 2 then Response True (Some [record_3])
      else if p = 3 then Response True (Some [])
      else Response False None)"

text \<open>
  Two sites. \<open>lib-a\<close> is local on both, with one file whose second hash differs, one equal
  file and one file on each side only; \<open>lib-b\<close> and \<open>lib-c\<close> are on one side each; \<open>lib-v\<close>
  is virtual on both, with different files; \<open>lib-m\<close> is local on the first site and
  virtual on the second; \<open>lib-s\<close> is local on both, with the same files.
\<close>

definition repo :: "string \<Rightarrow> string \<Rightarrow> item" where
  "repo k t = [''key'' \<mapsto> k, ''type'' \<mapsto> t]"

definition artifact :: "string \<Rightarrow> string \<Rightarrow> string \<Rightarrow> item" where
  "artifact u a b = [''uri'' \<mapsto> u, ''sha1'' \<mapsto> a, ''sha2'' \<mapsto> b]"

definition site_a :: site where
  "site_a =
     \<lparr>repositories_api = Response True
        [repo ''lib-a'' ''LOCAL'', repo ''lib-b'' ''VIRTUAL'', repo ''lib-v'' ''VIRTUAL'',
         repo ''lib-m'' ''LOCAL'', repo ''lib-s'' ''LOCAL''],
      storage_api = (\<lambda>r.
        if r = ''lib-a'' then Response True (Some
          [artifact ''/x.jar'' ''h1'' ''h2'', artifact ''/y.jar'' ''h4'' ''h5'',
           artifact ''/only1.jar'' ''h6'' ''h7''])
        else if r = ''lib-v'' then Response True (Some [artifact ''/v.jar'' ''h1'' ''h2''])
        else if r = ''lib-m'' then Response True (Some [artifact ''/m.jar'' ''h1'' ''h2''])
        else if r = ''lib-s'' then Response True (Some [artifact ''/s.jar'' ''h1'' ''h2''])
        else Response False None)\<rparr>"

definition site_b :: site where
  "site_b =
     \<lparr>repositories_api = Response True
        [repo ''lib-a'' ''LOCAL'', repo ''lib-c'' ''LOCAL'', repo ''lib-v'' ''VIRTUAL'',
         repo ''lib-m'' ''VIRTUAL'', repo ''lib-s'' ''LOCAL''],
      storage_api = (\<lambda>r.
        if r = ''lib-a'' then Response True (Some
          [artifact ''/x.jar'' ''h1'' ''h3'', artifact ''/y.jar'' ''h4'' ''h5'',
           artifact ''/only2.jar'' ''h6'' ''h7''])
        else if r = ''lib-v'' then Response True (Some [])
        else if r = ''lib-m'' then Response True (Some [])
        else if r = ''lib-s'' then Response True (Some [artifact ''/s.jar'' ''h1'' ''h2''])
        else Response False None)\<rparr>"

text \<open>The dictionaries that the code builds from the listings of the two sites.\<close>

definition repositories_a :: "(string, item) dict" where
  "repositories_a =
     [(''lib-a'', repo ''lib-a'' ''LOCAL''), (''lib-b'', repo ''lib-b'' ''VIRTUAL''),
      (''lib-v'', repo ''lib-v'' ''VIRTUAL''), (''lib-m'', repo ''lib-m'' ''LOCAL''),
      (''lib-s'', repo ''lib-s'' ''LOCAL'')]"

definition repositories_b :: "(string, item) dict" where
  "repositories_b =
     [(''lib-a'', repo ''lib-a'' ''LOCAL''), (''lib-c'', repo ''lib-c'' ''LOCAL''),
      (''lib-v'', repo ''lib-v'' ''VIRTUAL''), (''lib-m'', repo ''lib-m'' ''VIRTUAL''),
      (''lib-s'', repo ''lib-s'' ''LOCAL'')]"

definition items_a :: "(string, item) dict" where
  "items_a =
     [(''/x.jar'', artifact ''/x.jar'' ''h1'' ''h2''), (''/y.jar'', artifact ''/y.jar'' ''h4'' ''h5''),
      (''/only1.jar'', artifact ''/only1.jar'' ''h6'' ''h7'')]"

definition items_b :: "(string, item) dict" where
  "items_b =
     [(''/x.jar'', artifact ''/x.jar'' ''h1'' ''h3''), (''/y.jar'', artifact ''/y.jar'' ''h4'' ''h5''),
      (''/only2.jar'', artifact ''/only2.jar'' ''h6'' ''h7'')]"

definition artifacts_ab :: artifacts_report where
  "artifacts_ab =
     [(''lib-a'',
       [(''missing_in_1'', [''/only2.jar'']),
        (''missing_in_2'', [''/only1.jar'']),
        (''diffs'', [''/x.jar''])]),
      (''lib-m'', [(''missing_in_2'', [''/m.jar''])])]"

definition report_ab :: report where
  "report_ab =
     \<lparr>report_repositories =
        \<lparr>report_missing_in_1 = [''lib-c''],
         report_missing_in_2 = [''lib-b''],
         report_rclass_mismatch = [''lib-m'']\<rparr>,
      report_artifacts = Some artifacts_ab\<rparr>"

definition report_ab_excluded :: report where
  "report_ab_excluded =
     \<lparr>report_repositories =
        \<lparr>report_missing_in_1 = [''lib-c''],
         report_missing_in_2 = [''lib-b''],
         report_rclass_mismatch = [''lib-m'']\<rparr>,
      report_artifacts = None\<rparr>"

text \<open>A service that accepts every submission.\<close>

definition accepting :: "string \<Rightarrow> report_definition \<Rightarrow> unit response" where
  "accepting uri_type definition = Response True ()"

text \<open>A service that answers every submission with an error status.\<close>

definition refusing :: "string \<Rightarrow> report_definition \<Rightarrow> unit response" where
  "refusing uri_type definition = Response False ()"

text \<open>A payload whose report type is none of the three.\<close>

definition record_4 :: report_definition where
  "record_4 = [''id'' \<mapsto> JNum 4, ''name'' \<mapsto> JStr ''d'', ''report_type'' \<mapsto> JStr ''sbom'']"

section \<open>Properties of the paginated enumerator\<close>

lemma yield_reports_ok:
  "list_all has_id_name ds \<Longrightarrow> yield_reports ds out = (out @ map summary_of ds, None)"
  by (induction ds arbitrary: out) (auto simp: has_id_name_def summary_of_def)

text \<open>
  The loop started at page \<open>s\<close>, when the \<open>k\<close> pages from \<open>s\<close> on have records and the
  page after them has none: by induction on \<open>k\<close>, for any state reached so far.
\<close>

lemma report_summaries_loop_pages:
  assumes "\<forall>p \<in> set [s..<s + k]. status_ok (post p) \<and> reports_of (post p) \<noteq> []
             \<and> list_all has_id_name (reports_of (post p))"
    and "status_ok (post (s + k))" and "reports_of (post (s + k)) = []"
  shows "report_summaries_loop post s st =
     Some (\<lparr>yielded = yielded st @ map summary_of (concat (map (\<lambda>p. reports_of (post p)) [s..<s + k])),
            fetched = fetched st @ [s..<s + k + 1]\<rparr>, None)"
  using assms
proof (induction k arbitrary: s st)
  case 0
  then show ?case
    by (subst report_summaries_loop.simps) (simp add: raise_for_status_def)
next
  case (Suc k)
  have s: "status_ok (post s)" "reports_of (post s) \<noteq> []" "list_all has_id_name (reports_of (post s))"
    using Suc.prems(1) by auto
  have rest: "\<forall>p \<in> set [Suc s..<Suc s + k]. status_ok (post p) \<and> reports_of (post p) \<noteq> []
             \<and> list_all has_id_name (reports_of (post p))"
    using Suc.prems(1) by auto
  have IH: "report_summaries_loop post (Suc s) st' =
     Some (\<lparr>yielded = yielded st' @ map summary_of (concat (map (\<lambda>p. reports_of (post p)) [Suc s..<Suc s + k])),
            fetched = fetched st' @ [Suc s..<Suc s + k + 1]\<rparr>, None)" for st'
    using Suc.IH[OF rest] Suc.prems(2,3) by simp
  have u1: "[s..<s + Suc k] = s # [Suc s..<Suc s + k]"
    by (simp add: upt_conv_Cons)
  have u2: "[s..<s + Suc k + 1] = s # [Suc s..<Suc s + k + 1]"
    by (simp add: upt_conv_Cons)
  show ?case
    unfolding u1 u2
    by (subst report_summaries_loop.simps)
       (simp add: raise_for_status_def s yield_reports_ok IH del: upt_Suc)
qed

text \<open>
  C1. Let the requests for pages \<open>1\<close> to \<open>k\<close> succeed with at least one record each (every
  record having the \<open>id\<close> and \<open>name\<close> the generator reads), and the request for page
  \<open>k + 1\<close> succeed with no record. Then the generator finishes without raising; it has
  yielded one tuple per record of pages \<open>1\<close> to \<open>k\<close>, in page order and in the order within
  each page, and nothing else; and the requests it has made are exactly those for the
  pages \<open>1, 2, \<dots>, k + 1\<close>, in this order, one each. Nothing is assumed of the pages
  after \<open>k + 1\<close>: they are not requested.
\<close>

theorem report_summaries_generator_pages:
  assumes "\<forall>p \<in> set [1..<Suc k]. status_ok (post p) \<and> reports_of (post p) \<noteq> []
             \<and> list_all has_id_name (reports_of (post p))"
    and "status_ok (post (Suc k))" and "reports_of (post (Suc k)) = []"
  shows "report_summaries_generator post =
     Some (\<lparr>yielded = map summary_of (concat (map (\<lambda>p. reports_of (post p)) [1..<Suc k])),
            fetched = [1..<Suc (Suc k)]\<rparr>, None)"
  using report_summaries_loop_pages[of 1 k post "\<lparr>yielded = [], fetched = []\<rparr>"] assms
  by (simp add: report_summaries_generator_def)

text \<open>The pages \<open>[record_1, record_2]\<close>, \<open>[record_3]\<close>, \<open>[]\<close>: three tuples, three requests.\<close>

theorem report_summaries_generator_pages_witness:
  "status_ok (three_pages 3) \<and> reports_of (three_pages 3) = [] \<and>
   report_summaries_generator three_pages =
     Some (\<lparr>yielded = [(JNum 1, JStr ''a'', record_1), (JNum 2, JStr ''b'', record_2), (JNum 3, JStr ''c'', record_3)],
            fetched = [1, 2, 3]\<rparr>, None)"
proof -
  have u: "[1..<Suc 2] = [1, 2]" "[1..<Suc (Suc 2)] = [1, 2, 3]"
    by (simp_all add: upt_conv_Cons)
  show ?thesis
    using report_summaries_generator_pages[of 2 three_pages]
    unfolding u
    by (simp add: three_pages_def reports_of_def has_id_name_def summary_of_def record_1_def record_2_def record_3_def)
qed

text \<open>A first page without records: nothing is yielded, and one request is made.\<close>

lemma report_summaries_generator_first_page_empty:
  assumes "status_ok (post 1)" and "reports_of (post 1) = []"
  shows "report_summaries_generator post = Some (\<lparr>yielded = [], fetched = [1]\<rparr>, None)"
  using report_summaries_loop_pages[of 1 0 post "\<lparr>yielded = [], fetched = []\<rparr>"] assms
  by (simp add: report_summaries_generator_def)

section \<open>Properties of diff: the loops\<close>

lemma set_iterationD:
  "set_iteration iter \<Longrightarrow> finite S \<Longrightarrow> set (iter S) = S"
  "set_iteration iter \<Longrightarrow> finite S \<Longrightarrow> distinct (iter S)"
  by (simp_all add: set_iteration_def)

lemma getitem_Inr_iff: "getitem d k = Inr v \<longleftrightarrow> d k = Some v"
  by (simp add: getitem_def split: option.splits)

lemma dict_comprehension_keys:
  "dict_comprehension field items d = Inr d' \<Longrightarrow>
   fst ` set d' = fst ` set d \<union> {k. \<exists>item \<in> set items. item field = Some k}"
proof (induction items arbitrary: d)
  case Nil
  then show ?case by simp
next
  case (Cons item items)
  then obtain k where k: "item field = Some k"
    and rest: "dict_comprehension field items (AList.update k item d) = Inr d'"
    by (auto simp: getitem_def split: option.splits)
  show ?case
    using Cons.IH[OF rest] k by (auto simp: dom_update)
qed

lemma dict_comprehension_distinct:
  "dict_comprehension field items d = Inr d' \<Longrightarrow> distinct (map fst d) \<Longrightarrow> distinct (map fst d')"
  by (induction items arbitrary: d) (auto simp: getitem_def distinct_update split: option.splits)

lemma repository_keys_keys:
  "repository_keys site = Inr d \<Longrightarrow>
   fst ` set d = {k. \<exists>item \<in> set (body (repositories_api site)). item ''key'' = Some k}"
  by (auto simp: repository_keys_def dest!: dict_comprehension_keys split: sum.splits)

lemma rclass_mismatch_loop_result:
  "rclass_mismatch_loop d1 d2 keys acc = Inr m \<Longrightarrow>
   m = acc @ filter (\<lambda>key. repository_type d1 key \<noteq> repository_type d2 key) keys \<and>
   (\<forall>key \<in> set keys. \<exists>t1 t2. repository_type d1 key = Inr t1 \<and> repository_type d2 key = Inr t2)"
proof (induction keys arbitrary: acc)
  case Nil
  then show ?case by simp
next
  case (Cons key keys)
  from Cons.prems obtain t1 t2 where t: "repository_type d1 key = Inr t1" "repository_type d2 key = Inr t2"
    and rest: "rclass_mismatch_loop d1 d2 keys (if t1 \<noteq> t2 then acc @ [key] else acc) = Inr m"
    by (auto split: sum.splits)
  show ?case
    using Cons.IH[OF rest] t by auto
qed

lemma differs_Inr:
  "differs a b = Inr d \<Longrightarrow> d = (a ''sha1'' \<noteq> b ''sha1'' \<or> a ''sha2'' \<noteq> b ''sha2'')"
  by (auto simp: differs_def getitem_def split: option.splits if_splits)

lemma map_of_set_field:
  "map_of (set_field key field uris ar) =
   (map_of ar)(key \<mapsto> AList.update field uris (artifacts_report_entry ar key))"
  by (simp add: set_field_def update_conv')

lemma map_of_append_diff:
  "map_of (append_diff key uri ar) =
   (map_of ar)(key \<mapsto> AList.update ''diffs''
      ((case map_of (artifacts_report_entry ar key) ''diffs'' of None \<Rightarrow> [] | Some uris \<Rightarrow> uris) @ [uri])
      (artifacts_report_entry ar key))"
  by (simp add: append_diff_def update_conv' Let_def)

lemma diff_Inr:
  assumes "diff iter site_1 site_2 exclude_artifacts = Inr r"
    and "repository_keys site_1 = Inr repositories_1"
    and "repository_keys site_2 = Inr repositories_2"
  shows "report_missing_in_1 (report_repositories r) =
           iter (set (map fst repositories_2) - set (map fst repositories_1))"
    and "report_missing_in_2 (report_repositories r) =
           iter (set (map fst repositories_1) - set (map fst repositories_2))"
    and "rclass_mismatch_loop repositories_1 repositories_2
           (iter (set (map fst repositories_1) \<inter> set (map fst repositories_2))) [] =
         Inr (report_rclass_mismatch (report_repositories r))"
    and "report_artifacts r =
           (if exclude_artifacts then None
            else (case artifacts_loop iter site_1 site_2 repositories_1
                    (iter (set (map fst repositories_1) \<inter> set (map fst repositories_2))) [] of
                    Inl e \<Rightarrow> None | Inr ar \<Rightarrow> Some ar))"
    and "\<not> exclude_artifacts \<Longrightarrow>
         \<exists>ar. artifacts_loop iter site_1 site_2 repositories_1
           (iter (set (map fst repositories_1) \<inter> set (map fst repositories_2))) [] = Inr ar"
  using assms by (auto simp: diff_def Let_def split: sum.splits if_splits)

lemma diff_Inr_keys:
  assumes "diff iter site_1 site_2 exclude_artifacts = Inr r"
  shows "\<exists>repositories_1 repositories_2.
           repository_keys site_1 = Inr repositories_1 \<and> repository_keys site_2 = Inr repositories_2"
  using assms by (auto simp: diff_def split: sum.splits)

lemma artifacts_report_entry_upd:
  "map_of ar' = (map_of ar)(key \<mapsto> e) \<Longrightarrow> artifacts_report_entry ar' key = e"
  by (simp add: artifacts_report_entry_def)

lemma diffs_loop_result:
  "diffs_loop i1 i2 key uris ar = Inr ar' \<Longrightarrow>
   map_of ar' =
     (if filter (content_differs i1 i2) uris = [] then map_of ar
      else (map_of ar)(key \<mapsto>
             AList.update ''diffs'' (entry_diffs ar key @ filter (content_differs i1 i2) uris)
               (artifacts_report_entry ar key)))"
proof (induction uris arbitrary: ar)
  case Nil
  then show ?case by simp
next
  case (Cons uri uris)
  from Cons.prems obtain a b d where ab: "map_of i1 uri = Some a" "map_of i2 uri = Some b"
    and d: "differs a b = Inr d"
    and rest: "diffs_loop i1 i2 key uris (if d then append_diff key uri ar else ar) = Inr ar'"
    by (auto simp: getitem_Inr_iff split: sum.splits)
  have cd: "content_differs i1 i2 uri = d"
    using differs_Inr[OF d] ab by (simp add: content_differs_def)
  show ?case
  proof (cases d)
    case False
    then show ?thesis using Cons.IH[of ar] rest cd by simp
  next
    case True
    let ?ar1 = "append_diff key uri ar"
    have m1: "map_of ?ar1 = (map_of ar)(key \<mapsto>
        AList.update ''diffs'' (entry_diffs ar key @ [uri]) (artifacts_report_entry ar key))"
      by (simp add: map_of_append_diff entry_diffs_def)
    have e1: "artifacts_report_entry ?ar1 key =
        AList.update ''diffs'' (entry_diffs ar key @ [uri]) (artifacts_report_entry ar key)"
      by (rule artifacts_report_entry_upd[OF m1])
    have d1: "entry_diffs ?ar1 key = entry_diffs ar key @ [uri]"
      by (simp add: entry_diffs_def e1 update_conv')
    from rest True have "diffs_loop i1 i2 key uris ?ar1 = Inr ar'" by simp
    from Cons.IH[OF this]
    have IH: "map_of ar' =
     (if filter (content_differs i1 i2) uris = [] then map_of ?ar1
      else (map_of ?ar1)(key \<mapsto>
             AList.update ''diffs'' (entry_diffs ?ar1 key @ filter (content_differs i1 i2) uris)
               (artifacts_report_entry ?ar1 key)))" .
    have f: "filter (content_differs i1 i2) (uri # uris) = uri # filter (content_differs i1 i2) uris"
      using True cd by simp
    show ?thesis
      unfolding f IH e1 d1 m1
      by (cases "filter (content_differs i1 i2) uris = []") simp_all
  qed
qed

lemma compare_repository_result:
  assumes "compare_repository iter site_1 site_2 key ar = Inr ar'"
    and "map_of ar key = None"
  shows "\<exists>i1 i2. list_items site_1 key = Inr i1 \<and> list_items site_2 key = Inr i2 \<and>
           map_of ar' =
             (if repository_entry iter i1 i2 = [] then map_of ar
              else (map_of ar)(key \<mapsto> repository_entry iter i1 i2))"
proof -
  from assms(1) obtain i1 i2 where i: "list_items site_1 key = Inr i1" "list_items site_2 key = Inr i2"
    by (auto simp: compare_repository_def split: sum.splits)
  define M1 where "M1 = set (map fst i2) - set (map fst i1)"
  define M2 where "M2 = set (map fst i1) - set (map fst i2)"
  define ar1 where "ar1 = (if M1 \<noteq> {} then set_field key ''missing_in_1'' (iter M1) ar else ar)"
  define ar2 where "ar2 = (if M2 \<noteq> {} then set_field key ''missing_in_2'' (iter M2) ar1 else ar1)"
  define D where "D = filter (content_differs i1 i2) (iter (set (map fst i1) \<inter> set (map fst i2)))"
  have loop: "diffs_loop i1 i2 key (iter (set (map fst i1) \<inter> set (map fst i2))) ar2 = Inr ar'"
    using assms(1) unfolding compare_repository_def i sum.case Let_def ar2_def ar1_def M1_def M2_def .
  have e0: "artifacts_report_entry ar key = []"
    using assms(2) by (simp add: artifacts_report_entry_def)
  have m1: "map_of ar1 = (if M1 \<noteq> {} then (map_of ar)(key \<mapsto> [(''missing_in_1'', iter M1)]) else map_of ar)"
    by (simp add: ar1_def map_of_set_field e0)
  have e1: "artifacts_report_entry ar1 key = (if M1 \<noteq> {} then [(''missing_in_1'', iter M1)] else [])"
    using assms(2) by (simp add: artifacts_report_entry_def m1)
  have m2: "map_of ar2 =
      (if M2 \<noteq> {} then (map_of ar)(key \<mapsto> artifacts_report_entry ar1 key @ [(''missing_in_2'', iter M2)])
       else map_of ar1)"
    by (auto simp: ar2_def map_of_set_field e1 m1)
  have e2: "artifacts_report_entry ar2 key =
      (if M1 \<noteq> {} then [(''missing_in_1'', iter M1)] else []) @
      (if M2 \<noteq> {} then [(''missing_in_2'', iter M2)] else [])"
    using assms(2) by (simp add: artifacts_report_entry_def m2 m1 e1)
  have d2: "entry_diffs ar2 key = []"
    by (simp add: entry_diffs_def e2)
  have res: "map_of ar' =
     (if D = [] then map_of ar2
      else (map_of ar2)(key \<mapsto> AList.update ''diffs'' D (artifacts_report_entry ar2 key)))"
    using diffs_loop_result[OF loop] by (simp add: D_def d2)
  have u: "AList.update ''diffs'' D (artifacts_report_entry ar2 key) =
      artifacts_report_entry ar2 key @ [(''diffs'', D)]"
    by (simp add: e2)
  have re: "repository_entry iter i1 i2 =
      artifacts_report_entry ar2 key @ (if D \<noteq> [] then [(''diffs'', D)] else [])"
    unfolding repository_entry_def Let_def e2 D_def M1_def M2_def by (simp only: append_assoc)
  have "map_of ar' =
             (if repository_entry iter i1 i2 = [] then map_of ar
              else (map_of ar)(key \<mapsto> repository_entry iter i1 i2))"
    unfolding res u re
    by (auto simp: m2 m1 e1 e2)
  with i show ?thesis by blast
qed

lemma artifacts_loop_result:
  assumes "artifacts_loop iter site_1 site_2 reps keys ar = Inr ar'"
    and "distinct keys" and "\<forall>k \<in> set keys. map_of ar k = None"
  shows "map_of ar' =
           (\<lambda>k. if k \<in> set keys then expected_entry iter site_1 site_2 reps k else map_of ar k)"
  using assms
proof (induction keys arbitrary: ar)
  case Nil
  then show ?case by simp
next
  case (Cons key keys)
  from Cons.prems(1) obtain rclass where rc: "repository_type reps key = Inr rclass"
    by (auto split: sum.splits)
  have fresh: "map_of ar key = None" and notin: "key \<notin> set keys" and dist: "distinct keys"
    using Cons.prems(2,3) by auto
  show ?case
  proof (cases "rclass \<in> {''VIRTUAL'', ''REMOTE''}")
    case True
    then have rest: "artifacts_loop iter site_1 site_2 reps keys ar = Inr ar'"
      using Cons.prems(1) rc by simp
    have e: "expected_entry iter site_1 site_2 reps key = None"
      using True rc by (simp add: expected_entry_def)
    have "\<forall>k \<in> set keys. map_of ar k = None" using Cons.prems(3) by simp
    from Cons.IH[OF rest dist this] show ?thesis
      using e fresh notin by (auto simp: fun_eq_iff)
  next
    case False
    then obtain ar1 where c: "compare_repository iter site_1 site_2 key ar = Inr ar1"
      and rest: "artifacts_loop iter site_1 site_2 reps keys ar1 = Inr ar'"
      using Cons.prems(1) rc by (auto split: sum.splits)
    from compare_repository_result[OF c fresh] obtain i1 i2 where
      i: "list_items site_1 key = Inr i1" "list_items site_2 key = Inr i2"
      and m1: "map_of ar1 =
             (if repository_entry iter i1 i2 = [] then map_of ar
              else (map_of ar)(key \<mapsto> repository_entry iter i1 i2))"
      by blast
    have e: "expected_entry iter site_1 site_2 reps key =
        (if repository_entry iter i1 i2 = [] then None else Some (repository_entry iter i1 i2))"
      using False rc i by (simp add: expected_entry_def)
    have m1': "map_of ar1 = (map_of ar)(key := expected_entry iter site_1 site_2 reps key)"
      using m1 fresh by (auto simp: e fun_eq_iff)
    have "\<forall>k \<in> set keys. map_of ar1 k = None"
      using Cons.prems(3) notin by (auto simp: m1')
    from Cons.IH[OF rest dist this] show ?thesis
      using notin by (auto simp: fun_eq_iff m1')
  qed
qed

lemma diff_artifacts:
  assumes "set_iteration iter"
    and "diff iter site_1 site_2 False = Inr r"
    and "repository_keys site_1 = Inr repositories_1"
    and "repository_keys site_2 = Inr repositories_2"
  shows "\<exists>ar. report_artifacts r = Some ar \<and>
           map_of ar =
             (\<lambda>k. if k \<in> fst ` set repositories_1 \<inter> fst ` set repositories_2
                  then expected_entry iter site_1 site_2 repositories_1 k else None)"
proof -
  let ?B = "set (map fst repositories_1) \<inter> set (map fst repositories_2)"
  from diff_Inr(5)[OF assms(2-4)] obtain ar where
    ar: "artifacts_loop iter site_1 site_2 repositories_1 (iter ?B) [] = Inr ar"
    by auto
  have r: "report_artifacts r = Some ar"
    using diff_Inr(4)[OF assms(2-4)] ar by simp
  have fin: "finite ?B" by simp
  have "map_of ar =
     (\<lambda>k. if k \<in> set (iter ?B) then expected_entry iter site_1 site_2 repositories_1 k
          else map_of [] k)"
    by (rule artifacts_loop_result[OF ar set_iterationD(2)[OF assms(1) fin]]) simp
  then show ?thesis
    using r set_iterationD(1)[OF assms(1) fin] by (auto simp: fun_eq_iff)
qed

section \<open>Properties of diff: the report\<close>

lemma set_iteration_empty: "set_iteration iter \<Longrightarrow> finite S \<Longrightarrow> iter S = [] \<longleftrightarrow> S = {}"
  using set_iterationD(1)[of iter S] by auto

lemma three_fields_map_of:
  fixes e :: repository_report
  assumes "e = (if a then [(''missing_in_1'', x)] else []) @
               (if b then [(''missing_in_2'', y)] else []) @
               (if c then [(''diffs'', z)] else [])"
  shows "map_of e ''missing_in_1'' = (if a then Some x else None)"
    and "map_of e ''missing_in_2'' = (if b then Some y else None)"
    and "map_of e ''diffs'' = (if c then Some z else None)"
    and "fst ` set e \<subseteq> {''missing_in_1'', ''missing_in_2'', ''diffs''}"
    and "e = [] \<longleftrightarrow> \<not> a \<and> \<not> b \<and> \<not> c"
    and "set e = (if a then {(''missing_in_1'', x)} else {}) \<union>
                 (if b then {(''missing_in_2'', y)} else {}) \<union>
                 (if c then {(''diffs'', z)} else {})"
proof -
  show "map_of e ''missing_in_1'' = (if a then Some x else None)"
    unfolding assms by (cases a; cases b; cases c; simp)
  show "map_of e ''missing_in_2'' = (if b then Some y else None)"
    unfolding assms by (cases a; cases b; cases c; simp)
  show "map_of e ''diffs'' = (if c then Some z else None)"
    unfolding assms by (cases a; cases b; cases c; simp)
  show "fst ` set e \<subseteq> {''missing_in_1'', ''missing_in_2'', ''diffs''}"
    unfolding assms by (cases a; cases b; cases c; simp)
  show "e = [] \<longleftrightarrow> \<not> a \<and> \<not> b \<and> \<not> c"
    unfolding assms by (cases a; cases b; cases c; simp)
  show "set e = (if a then {(''missing_in_1'', x)} else {}) \<union>
                 (if b then {(''missing_in_2'', y)} else {}) \<union>
                 (if c then {(''diffs'', z)} else {})"
    unfolding assms by (cases a; cases b; cases c; simp add: insert_commute)
qed

lemma repository_entry_eq:
  "repository_entry iter i1 i2 =
     (if set (map fst i2) - set (map fst i1) \<noteq> {}
      then [(''missing_in_1'', iter (set (map fst i2) - set (map fst i1)))] else []) @
     (if set (map fst i1) - set (map fst i2) \<noteq> {}
      then [(''missing_in_2'', iter (set (map fst i1) - set (map fst i2)))] else []) @
     (if filter (content_differs i1 i2) (iter (set (map fst i1) \<inter> set (map fst i2))) \<noteq> []
      then [(''diffs'', filter (content_differs i1 i2) (iter (set (map fst i1) \<inter> set (map fst i2))))]
      else [])"
  unfolding repository_entry_def Let_def ..

lemmas repository_entry_fields = three_fields_map_of[OF repository_entry_eq]

lemma map_of_fst_image: "map_of al k = Some v \<Longrightarrow> k \<in> fst ` set al"
  by (metis map_of_eq_None_iff option.distinct(1))

lemma expected_entry_compared:
  assumes "repository_type repositories_1 key = Inr rclass"
    and "rclass \<notin> {''VIRTUAL'', ''REMOTE''}"
    and "list_items site_1 key = Inr i1" and "list_items site_2 key = Inr i2"
  shows "expected_entry iter site_1 site_2 repositories_1 key =
           (if repository_entry iter i1 i2 = [] then None else Some (repository_entry iter i1 i2))"
  using assms by (simp add: expected_entry_def)

lemma expected_entry_Some:
  assumes "expected_entry iter site_1 site_2 repositories_1 key = Some e"
  shows "\<exists>rclass i1 i2. repository_type repositories_1 key = Inr rclass \<and>
           rclass \<notin> {''VIRTUAL'', ''REMOTE''} \<and>
           list_items site_1 key = Inr i1 \<and> list_items site_2 key = Inr i2 \<and>
           e = repository_entry iter i1 i2 \<and> e \<noteq> []"
  using assms by (auto simp: expected_entry_def split: sum.splits if_splits)

lemma artifact_field_compared:
  assumes "set_iteration iter"
    and "diff iter site_1 site_2 False = Inr r"
    and "repository_keys site_1 = Inr repositories_1"
    and "repository_keys site_2 = Inr repositories_2"
    and "key \<in> fst ` set repositories_1 \<inter> fst ` set repositories_2"
    and "repository_type repositories_1 key = Inr rclass"
    and "rclass \<notin> {''VIRTUAL'', ''REMOTE''}"
    and "list_items site_1 key = Inr i1" and "list_items site_2 key = Inr i2"
  shows "artifact_field r key field =
           (case map_of (repository_entry iter i1 i2) field of None \<Rightarrow> [] | Some uris \<Rightarrow> uris)"
proof -
  from diff_artifacts[OF assms(1-4)] obtain ar where ar: "report_artifacts r = Some ar"
    and m: "map_of ar =
             (\<lambda>k. if k \<in> fst ` set repositories_1 \<inter> fst ` set repositories_2
                  then expected_entry iter site_1 site_2 repositories_1 k else None)"
    by blast
  have "map_of ar key =
      (if repository_entry iter i1 i2 = [] then None else Some (repository_entry iter i1 i2))"
    using m assms(5) expected_entry_compared[OF assms(6-9)] by simp
  then have "artifacts_report_entry ar key = repository_entry iter i1 i2"
    by (simp add: artifacts_report_entry_def)
  then show ?thesis
    by (simp add: artifact_field_def ar)
qed

lemma artifact_field_diffs:
  assumes "set_iteration iter"
    and "diff iter site_1 site_2 False = Inr r"
    and "repository_keys site_1 = Inr repositories_1"
    and "repository_keys site_2 = Inr repositories_2"
    and "key \<in> fst ` set repositories_1 \<inter> fst ` set repositories_2"
    and "repository_type repositories_1 key = Inr rclass"
    and "rclass \<notin> {''VIRTUAL'', ''REMOTE''}"
    and "list_items site_1 key = Inr i1" and "list_items site_2 key = Inr i2"
  shows "artifact_field r key ''diffs'' =
           filter (content_differs i1 i2) (iter (set (map fst i1) \<inter> set (map fst i2)))"
    and "artifact_field r key ''missing_in_1'' = iter (set (map fst i2) - set (map fst i1))"
    and "artifact_field r key ''missing_in_2'' = iter (set (map fst i1) - set (map fst i2))"
proof -
  show "artifact_field r key ''diffs'' =
           filter (content_differs i1 i2) (iter (set (map fst i1) \<inter> set (map fst i2)))"
    unfolding artifact_field_compared[OF assms] repository_entry_fields(3) by simp
  have e: "iter {} = []"
    using set_iteration_empty[OF assms(1), of "{}"] by simp
  have c: "(case (if M \<noteq> {} then Some (iter M) else None) of None \<Rightarrow> [] | Some uris \<Rightarrow> uris) = iter M"
    for M :: "string set"
    by (cases "M = {}") (simp_all add: e)
  show "artifact_field r key ''missing_in_1'' = iter (set (map fst i2) - set (map fst i1))"
    unfolding artifact_field_compared[OF assms] repository_entry_fields(1) by (rule c)
  show "artifact_field r key ''missing_in_2'' = iter (set (map fst i1) - set (map fst i2))"
    unfolding artifact_field_compared[OF assms] repository_entry_fields(2) by (rule c)
qed

lemma set_field_distinct:
  "distinct (map fst ar) \<Longrightarrow> distinct (map fst (set_field key field uris ar))"
  by (simp add: set_field_def distinct_update)

lemma append_diff_distinct:
  "distinct (map fst ar) \<Longrightarrow> distinct (map fst (append_diff key uri ar))"
  by (simp add: append_diff_def Let_def distinct_update)

lemma diffs_loop_distinct:
  "diffs_loop i1 i2 key uris ar = Inr ar' \<Longrightarrow> distinct (map fst ar) \<Longrightarrow> distinct (map fst ar')"
proof (induction uris arbitrary: ar)
  case Nil
  then show ?case by simp
next
  case (Cons uri uris)
  from Cons.prems(1) obtain d where
    rest: "diffs_loop i1 i2 key uris (if d then append_diff key uri ar else ar) = Inr ar'"
    by (auto split: sum.splits)
  have "distinct (map fst (if d then append_diff key uri ar else ar))"
    using Cons.prems(2) by (simp add: append_diff_distinct)
  from Cons.IH[OF rest this] show ?case .
qed

lemma compare_repository_distinct:
  assumes "compare_repository iter site_1 site_2 key ar = Inr ar'" and "distinct (map fst ar)"
  shows "distinct (map fst ar')"
proof -
  from assms(1) obtain i1 i2 uris ar2 where
    loop: "diffs_loop i1 i2 key uris ar2 = Inr ar'"
    and ar2: "\<exists>f1 u1 f2 u2 b1 b2. ar2 = (if b2 then set_field key f2 u2 (if b1 then set_field key f1 u1 ar else ar)
                 else (if b1 then set_field key f1 u1 ar else ar))"
    unfolding compare_repository_def Let_def by (auto split: sum.splits) blast
  have "distinct (map fst ar2)"
    using ar2 assms(2) by (auto simp: set_field_distinct)
  from diffs_loop_distinct[OF loop this] show ?thesis .
qed

lemma artifacts_loop_distinct:
  "artifacts_loop iter site_1 site_2 reps keys ar = Inr ar' \<Longrightarrow> distinct (map fst ar) \<Longrightarrow>
   distinct (map fst ar')"
proof (induction keys arbitrary: ar)
  case Nil
  then show ?case by simp
next
  case (Cons key keys)
  from Cons.prems(1) consider
    "artifacts_loop iter site_1 site_2 reps keys ar = Inr ar'"
    | ar1 where "compare_repository iter site_1 site_2 key ar = Inr ar1"
        "artifacts_loop iter site_1 site_2 reps keys ar1 = Inr ar'"
    by (auto split: sum.splits if_splits)
  then show ?case
  proof cases
    case 1
    from Cons.IH[OF 1 Cons.prems(2)] show ?thesis .
  next
    case 2
    from Cons.IH[OF 2(2) compare_repository_distinct[OF 2(1) Cons.prems(2)]] show ?thesis .
  qed
qed

lemma diff_artifacts_distinct:
  assumes "diff iter site_1 site_2 exclude_artifacts = Inr r" and "report_artifacts r = Some ar"
  shows "distinct (map fst ar)"
proof -
  from diff_Inr_keys[OF assms(1)] obtain repositories_1 repositories_2 where
    k: "repository_keys site_1 = Inr repositories_1" "repository_keys site_2 = Inr repositories_2"
    by blast
  have "artifacts_loop iter site_1 site_2 repositories_1
          (iter (set (map fst repositories_1) \<inter> set (map fst repositories_2))) [] = Inr ar"
    using diff_Inr(4)[OF assms(1) k] assms(2) by (auto split: if_splits sum.splits)
  from artifacts_loop_distinct[OF this] show ?thesis by simp
qed

lemma repository_keys_storage_api:
  "repository_keys (site\<lparr>storage_api := storage\<rparr>) = repository_keys site"
  by (simp add: repository_keys_def split: sum.splits)

lemma diff_exclude_artifacts:
  "diff iter site_1 site_2 True =
     (case repository_keys site_1 of Inl e \<Rightarrow> Inl e | Inr repositories_1 \<Rightarrow>
     (case repository_keys site_2 of Inl e \<Rightarrow> Inl e | Inr repositories_2 \<Rightarrow>
     (case rclass_mismatch_loop repositories_1 repositories_2
             (iter (set (map fst repositories_1) \<inter> set (map fst repositories_2))) [] of
        Inl e \<Rightarrow> Inl e
      | Inr rclass_mismatch \<Rightarrow>
          Inr \<lparr>report_repositories =
                 \<lparr>report_missing_in_1 =
                    iter (set (map fst repositories_2) - set (map fst repositories_1)),
                  report_missing_in_2 =
                    iter (set (map fst repositories_1) - set (map fst repositories_2)),
                  report_rclass_mismatch = rclass_mismatch\<rparr>,
               report_artifacts = None\<rparr>)))"
  unfolding diff_def Let_def by (simp only: not_True_eq_False if_False sum.case)

lemma fst_image_map_of: "k \<in> fst ` set al \<longleftrightarrow> map_of al k \<noteq> None"
  by (simp add: map_of_eq_None_iff)

lemma artifact_field_cases:
  assumes "set_iteration iter"
    and "diff iter site_1 site_2 False = Inr r"
  shows "(\<forall>field. artifact_field r key field = []) \<or>
         (\<exists>i1 i2. list_items site_1 key = Inr i1 \<and> list_items site_2 key = Inr i2 \<and>
            artifact_field r key ''diffs'' =
              filter (content_differs i1 i2) (iter (set (map fst i1) \<inter> set (map fst i2))) \<and>
            artifact_field r key ''missing_in_1'' = iter (set (map fst i2) - set (map fst i1)) \<and>
            artifact_field r key ''missing_in_2'' = iter (set (map fst i1) - set (map fst i2)))"
proof -
  from diff_Inr_keys[OF assms(2)] obtain repositories_1 repositories_2 where
    k: "repository_keys site_1 = Inr repositories_1" "repository_keys site_2 = Inr repositories_2"
    by blast
  from diff_artifacts[OF assms k] obtain ar where ar: "report_artifacts r = Some ar"
    and m: "map_of ar =
             (\<lambda>k. if k \<in> fst ` set repositories_1 \<inter> fst ` set repositories_2
                  then expected_entry iter site_1 site_2 repositories_1 k else None)"
    by blast
  show ?thesis
  proof (cases "map_of ar key")
    case None
    then have "artifacts_report_entry ar key = []"
      by (simp add: artifacts_report_entry_def)
    then have "\<forall>field. artifact_field r key field = []"
      by (simp add: artifact_field_def ar)
    then show ?thesis ..
  next
    case (Some e)
    have B: "key \<in> fst ` set repositories_1 \<inter> fst ` set repositories_2"
    proof (rule ccontr)
      assume "\<not> ?thesis"
      then have "map_of ar key = None" unfolding m by (rule if_not_P)
      with Some show False by simp
    qed
    then have "map_of ar key = expected_entry iter site_1 site_2 repositories_1 key"
      unfolding m by (rule if_P)
    with Some have "expected_entry iter site_1 site_2 repositories_1 key = Some e" by simp
    from expected_entry_Some[OF this] obtain rclass i1 i2 where
      h: "repository_type repositories_1 key = Inr rclass"
      "rclass \<notin> {''VIRTUAL'', ''REMOTE''}" "list_items site_1 key = Inr i1" "list_items site_2 key = Inr i2"
      by blast
    note f = artifact_field_diffs[OF assms k B h]
    have "\<exists>i1 i2. list_items site_1 key = Inr i1 \<and> list_items site_2 key = Inr i2 \<and>
            artifact_field r key ''diffs'' =
              filter (content_differs i1 i2) (iter (set (map fst i1) \<inter> set (map fst i2))) \<and>
            artifact_field r key ''missing_in_1'' = iter (set (map fst i2) - set (map fst i1)) \<and>
            artifact_field r key ''missing_in_2'' = iter (set (map fst i1) - set (map fst i2))"
      using h(3,4) f by (intro exI[of _ i1] exI[of _ i2] conjI)
    then show ?thesis ..
  qed
qed

subsection \<open>The run on the two concrete sites\<close>

lemma sorted_list_of_set_iteration: "set_iteration (sorted_list_of_set :: string set \<Rightarrow> string list)"
  by (simp add: set_iteration_def)

lemma diff_site_a_site_b: "diff sorted_list_of_set site_a site_b False = Inr report_ab"
  by code_simp

lemma diff_site_a_site_b_excluded: "diff sorted_list_of_set site_a site_b True = Inr report_ab_excluded"
  by code_simp

lemma repository_keys_site_a: "repository_keys site_a = Inr repositories_a"
  by (simp add: repository_keys_def site_a_def raise_for_status_def getitem_def repo_def repositories_a_def)

lemma repository_keys_site_b: "repository_keys site_b = Inr repositories_b"
  by (simp add: repository_keys_def site_b_def raise_for_status_def getitem_def repo_def repositories_b_def)

lemma list_items_site_a: "list_items site_a ''lib-a'' = Inr items_a"
  by (simp add: list_items_def site_a_def raise_for_status_def getitem_def artifact_def items_a_def)

lemma list_items_site_b: "list_items site_b ''lib-a'' = Inr items_b"
  by (simp add: list_items_def site_b_def raise_for_status_def getitem_def artifact_def items_b_def)

lemma repository_type_lib_a: "repository_type repositories_a ''lib-a'' = Inr ''LOCAL''"
  by (simp add: repository_type_def repositories_a_def getitem_def repo_def)

lemma lib_a_in_both: "''lib-a'' \<in> fst ` set repositories_a \<inter> fst ` set repositories_b"
  by (simp add: repositories_a_def repositories_b_def)

lemma repository_type_lib_m:
  "repository_type repositories_a ''lib-m'' = Inr ''LOCAL''"
  "repository_type repositories_b ''lib-m'' = Inr ''VIRTUAL''"
  by (simp_all add: repository_type_def repositories_a_def repositories_b_def getitem_def repo_def)

lemma lib_m_in_both: "''lib-m'' \<in> fst ` set repositories_a \<inter> fst ` set repositories_b"
  by (simp add: repositories_a_def repositories_b_def)

lemma list_items_site_a_lib_m: "list_items site_a ''lib-m'' = Inr [(''/m.jar'', artifact ''/m.jar'' ''h1'' ''h2'')]"
  by (simp add: list_items_def site_a_def raise_for_status_def getitem_def artifact_def)

lemma report_artifacts_ab: "report_artifacts report_ab = Some artifacts_ab"
  by (simp add: report_ab_def)

lemma repository_type_lib_v: "repository_type repositories_a ''lib-v'' = Inr ''VIRTUAL''"
  by (simp add: repository_type_def repositories_a_def getitem_def repo_def)

lemma artifact_field_lib_a:
  "artifact_field report_ab ''lib-a'' ''diffs'' = [''/x.jar'']"
  "artifact_field report_ab ''lib-a'' ''missing_in_1'' = [''/only2.jar'']"
  "artifact_field report_ab ''lib-a'' ''missing_in_2'' = [''/only1.jar'']"
  by (simp_all add: artifact_field_def report_ab_def artifacts_ab_def artifacts_report_entry_def)

section \<open>The claims on diff\<close>

text \<open>
  C2. In the report of a run that ends, \<open>missing_in_1\<close> holds the identifiers of the second
  site only and \<open>missing_in_2\<close> those of the first site only; the two are disjoint, each is
  disjoint from \<open>exists_in_both\<close> (the identifiers of both sites), and the three together
  are the union of the identifiers of the two sites.
\<close>

theorem repositories_partition:
  assumes "set_iteration iter"
    and "diff iter site_1 site_2 exclude_artifacts = Inr r"
    and "repository_keys site_1 = Inr repositories_1"
    and "repository_keys site_2 = Inr repositories_2"
  shows "(let keys_1 = fst ` set repositories_1;
              keys_2 = fst ` set repositories_2;
              missing_1 = set (report_missing_in_1 (report_repositories r));
              missing_2 = set (report_missing_in_2 (report_repositories r));
              exists_in_both = keys_1 \<inter> keys_2
          in missing_1 = keys_2 - keys_1 \<and> missing_2 = keys_1 - keys_2 \<and>
             missing_1 \<inter> missing_2 = {} \<and>
             missing_1 \<inter> exists_in_both = {} \<and>
             missing_2 \<inter> exists_in_both = {} \<and>
             missing_1 \<union> missing_2 \<union> exists_in_both = keys_1 \<union> keys_2)"
proof -
  have "set (report_missing_in_1 (report_repositories r)) = fst ` set repositories_2 - fst ` set repositories_1"
    using diff_Inr(1)[OF assms(2-4)] set_iterationD(1)[OF assms(1)] by simp
  moreover have "set (report_missing_in_2 (report_repositories r)) = fst ` set repositories_1 - fst ` set repositories_2"
    using diff_Inr(2)[OF assms(2-4)] set_iterationD(1)[OF assms(1)] by simp
  ultimately show ?thesis
    by (auto simp: Let_def)
qed

theorem repositories_partition_witness:
  "set_iteration (sorted_list_of_set :: string set \<Rightarrow> string list) \<and>
   diff sorted_list_of_set site_a site_b False = Inr report_ab \<and>
   repository_keys site_a = Inr repositories_a \<and>
   repository_keys site_b = Inr repositories_b \<and>
   set (report_missing_in_1 (report_repositories report_ab)) = {''lib-c''} \<and>
   set (report_missing_in_2 (report_repositories report_ab)) = {''lib-b''} \<and>
   fst ` set repositories_b - fst ` set repositories_a = {''lib-c''} \<and>
   fst ` set repositories_a - fst ` set repositories_b = {''lib-b''}"
  using repositories_partition[OF sorted_list_of_set_iteration diff_site_a_site_b
      repository_keys_site_a repository_keys_site_b]
    sorted_list_of_set_iteration diff_site_a_site_b repository_keys_site_a repository_keys_site_b
  by (simp add: Let_def report_ab_def)

text \<open>
  C3. In a run with the comparison of artifacts that ends, for a repository of both sites
  whose type on the first site is neither \<open>VIRTUAL\<close> nor \<open>REMOTE\<close> and a path listed on both
  sides, the path is in the \<open>diffs\<close> of the repository exactly when the \<open>sha1\<close> of the two
  items differ or their \<open>sha2\<close> differ.
\<close>

theorem artifact_diffs_iff:
  assumes "set_iteration iter"
    and "diff iter site_1 site_2 False = Inr r"
    and "repository_keys site_1 = Inr repositories_1"
    and "repository_keys site_2 = Inr repositories_2"
    and "key \<in> fst ` set repositories_1 \<inter> fst ` set repositories_2"
    and "repository_type repositories_1 key = Inr rclass"
    and "rclass \<notin> {''VIRTUAL'', ''REMOTE''}"
    and "list_items site_1 key = Inr items_in_1"
    and "list_items site_2 key = Inr items_in_2"
    and "map_of items_in_1 uri = Some item_in_1"
    and "map_of items_in_2 uri = Some item_in_2"
  shows "uri \<in> set (artifact_field r key ''diffs'') \<longleftrightarrow>
           item_in_1 ''sha1'' \<noteq> item_in_2 ''sha1'' \<or> item_in_1 ''sha2'' \<noteq> item_in_2 ''sha2''"
proof -
  have fin: "finite (set (map fst items_in_1) \<inter> set (map fst items_in_2))" by simp
  have both: "uri \<in> set (map fst items_in_1) \<inter> set (map fst items_in_2)"
    using map_of_fst_image[OF assms(10)] map_of_fst_image[OF assms(11)] by simp
  have "uri \<in> set (artifact_field r key ''diffs'') \<longleftrightarrow> content_differs items_in_1 items_in_2 uri"
    unfolding artifact_field_diffs(1)[OF assms(1-9)]
    using both set_iterationD(1)[OF assms(1) fin] by simp
  then show ?thesis
    using assms(10,11) by (simp add: content_differs_def)
qed

text \<open>The path \<open>/x.jar\<close> of \<open>lib-a\<close>: equal \<open>sha1\<close>, different \<open>sha2\<close>, reported.\<close>

theorem artifact_diffs_iff_witness:
  "map_of items_a ''/x.jar'' = Some (artifact ''/x.jar'' ''h1'' ''h2'') \<and>
   map_of items_b ''/x.jar'' = Some (artifact ''/x.jar'' ''h1'' ''h3'') \<and>
   ''/x.jar'' \<in> set (artifact_field report_ab ''lib-a'' ''diffs'') \<and>
   artifact ''/x.jar'' ''h1'' ''h2'' ''sha1'' = artifact ''/x.jar'' ''h1'' ''h3'' ''sha1'' \<and>
   artifact ''/x.jar'' ''h1'' ''h2'' ''sha2'' \<noteq> artifact ''/x.jar'' ''h1'' ''h3'' ''sha2''"
proof -
  have x1: "map_of items_a ''/x.jar'' = Some (artifact ''/x.jar'' ''h1'' ''h2'')"
    by (simp add: items_a_def)
  have x2: "map_of items_b ''/x.jar'' = Some (artifact ''/x.jar'' ''h1'' ''h3'')"
    by (simp add: items_b_def)
  have "''LOCAL'' \<notin> {''VIRTUAL'', ''REMOTE''}" by simp
  from artifact_diffs_iff[OF sorted_list_of_set_iteration diff_site_a_site_b
      repository_keys_site_a repository_keys_site_b lib_a_in_both repository_type_lib_a this
      list_items_site_a list_items_site_b x1 x2]
  show ?thesis
    using x1 x2 by (simp add: artifact_def)
qed

text \<open>
  C5. In the report of a run that ends, \<open>rclass_mismatch\<close> lies within \<open>exists_in_both\<close>;
  every identifier of both sites has a type on each side, and it is in \<open>rclass_mismatch\<close>
  exactly when the two types differ. An identifier of both sites with the same type on
  both is in neither missing list nor in \<open>rclass_mismatch\<close>.
\<close>

theorem rclass_mismatch_exact:
  assumes "set_iteration iter"
    and "diff iter site_1 site_2 exclude_artifacts = Inr r"
    and "repository_keys site_1 = Inr repositories_1"
    and "repository_keys site_2 = Inr repositories_2"
  shows "(let exists_in_both = fst ` set repositories_1 \<inter> fst ` set repositories_2;
              mismatch = set (report_rclass_mismatch (report_repositories r))
          in mismatch \<subseteq> exists_in_both \<and>
             (\<forall>key \<in> exists_in_both.
                \<exists>rclass_1 rclass_2.
                  repository_type repositories_1 key = Inr rclass_1 \<and>
                  repository_type repositories_2 key = Inr rclass_2 \<and>
                  (key \<in> mismatch \<longleftrightarrow> rclass_1 \<noteq> rclass_2) \<and>
                  (rclass_1 = rclass_2 \<longrightarrow>
                     key \<notin> set (report_missing_in_1 (report_repositories r)) \<and>
                     key \<notin> set (report_missing_in_2 (report_repositories r)) \<and>
                     key \<notin> mismatch)))"
proof -
  let ?B = "set (map fst repositories_1) \<inter> set (map fst repositories_2)"
  have fin: "finite ?B" by simp
  have B: "set (iter ?B) = fst ` set repositories_1 \<inter> fst ` set repositories_2"
    using set_iterationD(1)[OF assms(1) fin] by simp
  note loop = rclass_mismatch_loop_result[OF diff_Inr(3)[OF assms(2-4)]]
  have m: "set (report_rclass_mismatch (report_repositories r)) =
      {key \<in> fst ` set repositories_1 \<inter> fst ` set repositories_2.
         repository_type repositories_1 key \<noteq> repository_type repositories_2 key}"
    using loop B by auto
  have t: "\<forall>key \<in> fst ` set repositories_1 \<inter> fst ` set repositories_2.
      \<exists>t1 t2. repository_type repositories_1 key = Inr t1 \<and> repository_type repositories_2 key = Inr t2"
    using loop B by blast
  have m1: "set (report_missing_in_1 (report_repositories r)) = fst ` set repositories_2 - fst ` set repositories_1"
    using diff_Inr(1)[OF assms(2-4)] set_iterationD(1)[OF assms(1)] by simp
  have m2: "set (report_missing_in_2 (report_repositories r)) = fst ` set repositories_1 - fst ` set repositories_2"
    using diff_Inr(2)[OF assms(2-4)] set_iterationD(1)[OF assms(1)] by simp
  show ?thesis
    unfolding Let_def
  proof (intro conjI ballI)
    show "set (report_rclass_mismatch (report_repositories r))
            \<subseteq> fst ` set repositories_1 \<inter> fst ` set repositories_2"
      unfolding m by blast
  next
    fix key
    assume key: "key \<in> fst ` set repositories_1 \<inter> fst ` set repositories_2"
    with t obtain t1 t2 where
      t12: "repository_type repositories_1 key = Inr t1" "repository_type repositories_2 key = Inr t2"
      by blast
    have "key \<in> set (report_rclass_mismatch (report_repositories r)) \<longleftrightarrow> t1 \<noteq> t2"
      unfolding m using key t12 by simp
    moreover have "key \<notin> set (report_missing_in_1 (report_repositories r))"
      "key \<notin> set (report_missing_in_2 (report_repositories r))"
      unfolding m1 m2 using key by blast+
    ultimately show "\<exists>rclass_1 rclass_2.
            repository_type repositories_1 key = Inr rclass_1 \<and>
            repository_type repositories_2 key = Inr rclass_2 \<and>
            (key \<in> set (report_rclass_mismatch (report_repositories r)) \<longleftrightarrow> rclass_1 \<noteq> rclass_2) \<and>
            (rclass_1 = rclass_2 \<longrightarrow>
               key \<notin> set (report_missing_in_1 (report_repositories r)) \<and>
               key \<notin> set (report_missing_in_2 (report_repositories r)) \<and>
               key \<notin> set (report_rclass_mismatch (report_repositories r)))"
      using t12 by blast
  qed
qed

text \<open>\<open>lib-m\<close> is \<open>LOCAL\<close> on the first site and \<open>VIRTUAL\<close> on the second.\<close>

theorem rclass_mismatch_exact_witness:
  "set_iteration (sorted_list_of_set :: string set \<Rightarrow> string list) \<and>
   diff sorted_list_of_set site_a site_b False = Inr report_ab \<and>
   repository_keys site_a = Inr repositories_a \<and>
   repository_keys site_b = Inr repositories_b \<and>
   repository_type repositories_a ''lib-m'' = Inr ''LOCAL'' \<and>
   repository_type repositories_b ''lib-m'' = Inr ''VIRTUAL'' \<and>
   ''lib-m'' \<in> set (report_rclass_mismatch (report_repositories report_ab))"
proof -
  note inst = rclass_mismatch_exact[OF sorted_list_of_set_iteration diff_site_a_site_b
      repository_keys_site_a repository_keys_site_b, unfolded Let_def]
  from inst lib_m_in_both obtain rclass_1 rclass_2 where
    "repository_type repositories_a ''lib-m'' = Inr rclass_1"
    "repository_type repositories_b ''lib-m'' = Inr rclass_2"
    "''lib-m'' \<in> set (report_rclass_mismatch (report_repositories report_ab)) \<longleftrightarrow> rclass_1 \<noteq> rclass_2"
    by blast
  then have "''lib-m'' \<in> set (report_rclass_mismatch (report_repositories report_ab))"
    unfolding repository_type_lib_m by auto
  then show ?thesis
    using sorted_list_of_set_iteration diff_site_a_site_b repository_keys_site_a
      repository_keys_site_b repository_type_lib_m by blast
qed

text \<open>
  C8. A run with \<open>exclude_artifacts\<close> that ends reports no artifacts section
  (\<open>report_artifacts\<close> is \<open>None\<close>, which the code prints as \<^verbatim>\<open>null\<close>). Its repositories section
  is the one that the run without \<open>exclude_artifacts\<close> reports on the same sites, when
  that run ends, and that run does report an artifacts section. The run with
  \<open>exclude_artifacts\<close> does not depend on the file listings of the sites.
\<close>

theorem exclude_artifacts_omits_artifacts:
  assumes "diff iter site_1 site_2 True = Inr r"
  shows "report_artifacts r = None \<and>
         (\<forall>r'. diff iter site_1 site_2 False = Inr r' \<longrightarrow>
            report_repositories r' = report_repositories r \<and> report_artifacts r' \<noteq> None) \<and>
         (\<forall>storage_1 storage_2.
            diff iter (site_1\<lparr>storage_api := storage_1\<rparr>) (site_2\<lparr>storage_api := storage_2\<rparr>) True = Inr r)"
proof -
  from diff_Inr_keys[OF assms] obtain repositories_1 repositories_2 where
    k: "repository_keys site_1 = Inr repositories_1" "repository_keys site_2 = Inr repositories_2"
    by blast
  have a: "report_artifacts r = None"
    using diff_Inr(4)[OF assms k] by simp
  have b: "report_repositories r' = report_repositories r \<and> report_artifacts r' \<noteq> None"
    if r': "diff iter site_1 site_2 False = Inr r'" for r'
  proof -
    have "report_missing_in_1 (report_repositories r') = report_missing_in_1 (report_repositories r)"
      "report_missing_in_2 (report_repositories r') = report_missing_in_2 (report_repositories r)"
      "report_rclass_mismatch (report_repositories r') = report_rclass_mismatch (report_repositories r)"
      using diff_Inr(1-3)[OF r' k] diff_Inr(1-3)[OF assms k] by simp_all
    then have "report_repositories r' = report_repositories r"
      by (simp add: repositories_section.equality)
    moreover have "report_artifacts r' \<noteq> None"
      using diff_Inr(4,5)[OF r' k] by auto
    ultimately show ?thesis by simp
  qed
  have c: "diff iter (site_1\<lparr>storage_api := storage_1\<rparr>) (site_2\<lparr>storage_api := storage_2\<rparr>) True = Inr r"
    for storage_1 storage_2
    using assms unfolding diff_exclude_artifacts repository_keys_storage_api .
  show ?thesis using a b c by blast
qed

theorem exclude_artifacts_omits_artifacts_witness:
  "diff sorted_list_of_set site_a site_b True = Inr report_ab_excluded \<and>
   report_artifacts report_ab_excluded = None \<and>
   diff sorted_list_of_set site_a site_b False = Inr report_ab \<and>
   report_repositories report_ab = report_repositories report_ab_excluded \<and>
   report_artifacts report_ab \<noteq> None"
  using exclude_artifacts_omits_artifacts[OF diff_site_a_site_b_excluded]
    diff_site_a_site_b_excluded diff_site_a_site_b
  by blast

text \<open>
  C4. In a run with the comparison of artifacts that ends, a repository whose type on the
  first site is \<open>VIRTUAL\<close> or \<open>REMOTE\<close> is not a key of the artifacts map, whatever the
  listings of its files are. The code tests the type that the first site gives
  (\<^verbatim>\<open>repositories_1[key]["type"]\<close>); a repository with such a type on both sites is a
  case of this.
\<close>

theorem aggregating_repository_not_in_artifacts:
  assumes "set_iteration iter"
    and "diff iter site_1 site_2 False = Inr r"
    and "repository_keys site_1 = Inr repositories_1"
    and "repository_type repositories_1 key = Inr rclass"
    and "rclass \<in> {''VIRTUAL'', ''REMOTE''}"
    and "report_artifacts r = Some ar"
  shows "key \<notin> fst ` set ar"
proof -
  from diff_Inr_keys[OF assms(2)] assms(3) obtain repositories_2 where
    k2: "repository_keys site_2 = Inr repositories_2" by auto
  from diff_artifacts[OF assms(1,2,3) k2] assms(6) have
    m: "map_of ar =
             (\<lambda>k. if k \<in> fst ` set repositories_1 \<inter> fst ` set repositories_2
                  then expected_entry iter site_1 site_2 repositories_1 k else None)"
    by auto
  have "expected_entry iter site_1 site_2 repositories_1 key = None"
    using assms(4,5) by (simp add: expected_entry_def)
  then have "map_of ar key = None"
    unfolding m by simp
  then show ?thesis
    by (simp add: fst_image_map_of)
qed

text \<open>\<open>lib-v\<close> is \<open>VIRTUAL\<close> on both sites, with different files, and is not a key.\<close>

theorem aggregating_repository_not_in_artifacts_witness:
  "set_iteration (sorted_list_of_set :: string set \<Rightarrow> string list) \<and>
   diff sorted_list_of_set site_a site_b False = Inr report_ab \<and>
   repository_keys site_a = Inr repositories_a \<and>
   repository_type repositories_a ''lib-v'' = Inr ''VIRTUAL'' \<and>
   report_artifacts report_ab = Some artifacts_ab \<and>
   ''lib-v'' \<notin> fst ` set artifacts_ab"
proof -
  have "''VIRTUAL'' \<in> {''VIRTUAL'', ''REMOTE''}" by simp
  from aggregating_repository_not_in_artifacts[OF sorted_list_of_set_iteration diff_site_a_site_b
      repository_keys_site_a repository_type_lib_v this report_artifacts_ab]
  show ?thesis
    using sorted_list_of_set_iteration diff_site_a_site_b repository_keys_site_a
      repository_type_lib_v report_artifacts_ab by blast
qed

text \<open>
  The type that the second site gives is not tested: \<open>lib-m\<close>, which is \<open>LOCAL\<close> on the
  first site and \<open>VIRTUAL\<close> on the second, is compared and is a key of the artifacts map.
\<close>

lemma virtual_on_site_2_only_is_compared:
  "repository_type repositories_a ''lib-m'' = Inr ''LOCAL'' \<and>
   repository_type repositories_b ''lib-m'' = Inr ''VIRTUAL'' \<and>
   diff sorted_list_of_set site_a site_b False = Inr report_ab \<and>
   report_artifacts report_ab = Some artifacts_ab \<and>
   ''lib-m'' \<in> fst ` set artifacts_ab"
  using repository_type_lib_m diff_site_a_site_b report_artifacts_ab
  by (simp add: artifacts_ab_def)

text \<open>
  C6. In a run with the comparison of artifacts that ends, the keys of the artifacts map
  are exactly the repositories of both sites whose type on the first site is neither
  \<open>VIRTUAL\<close> nor \<open>REMOTE\<close> and for which at least one of the three sets is not empty: the
  paths of the second side only, the paths of the first side only, the paths of both
  sides whose hashes differ. So a repository whose two listings have the same paths with
  the same hashes is not a key.
\<close>

theorem artifacts_key_iff:
  assumes "set_iteration iter"
    and "diff iter site_1 site_2 False = Inr r"
    and "repository_keys site_1 = Inr repositories_1"
    and "repository_keys site_2 = Inr repositories_2"
    and "report_artifacts r = Some ar"
  shows "key \<in> fst ` set ar \<longleftrightarrow>
           key \<in> fst ` set repositories_1 \<inter> fst ` set repositories_2 \<and>
           (\<exists>rclass items_in_1 items_in_2.
              repository_type repositories_1 key = Inr rclass \<and>
              rclass \<notin> {''VIRTUAL'', ''REMOTE''} \<and>
              list_items site_1 key = Inr items_in_1 \<and>
              list_items site_2 key = Inr items_in_2 \<and>
              (fst ` set items_in_2 - fst ` set items_in_1 \<noteq> {} \<or>
               fst ` set items_in_1 - fst ` set items_in_2 \<noteq> {} \<or>
               (\<exists>uri \<in> fst ` set items_in_1 \<inter> fst ` set items_in_2.
                  content_differs items_in_1 items_in_2 uri)))"
  (is "?L \<longleftrightarrow> ?B \<and> ?R")
proof -
  from diff_artifacts[OF assms(1-4)] assms(5) have
    m: "map_of ar =
             (\<lambda>k. if k \<in> fst ` set repositories_1 \<inter> fst ` set repositories_2
                  then expected_entry iter site_1 site_2 repositories_1 k else None)"
    by auto
  have nonempty: "repository_entry iter i1 i2 \<noteq> [] \<longleftrightarrow>
      (fst ` set i2 - fst ` set i1 \<noteq> {} \<or> fst ` set i1 - fst ` set i2 \<noteq> {} \<or>
       (\<exists>uri \<in> fst ` set i1 \<inter> fst ` set i2. content_differs i1 i2 uri))" for i1 i2
  proof -
    have fin: "finite (set (map fst i1) \<inter> set (map fst i2))" by simp
    have "filter (content_differs i1 i2) (iter (set (map fst i1) \<inter> set (map fst i2))) \<noteq> [] \<longleftrightarrow>
        (\<exists>uri \<in> fst ` set i1 \<inter> fst ` set i2. content_differs i1 i2 uri)"
      using set_iterationD(1)[OF assms(1) fin] by (auto simp: filter_empty_conv)
    then show ?thesis
      unfolding repository_entry_fields(5) by simp
  qed
  have l: "?L \<longleftrightarrow> map_of ar key \<noteq> None" by (rule fst_image_map_of)
  have L: "?L \<longleftrightarrow> ?B \<and> expected_entry iter site_1 site_2 repositories_1 key \<noteq> None"
  proof (cases ?B)
    case True
    then have "map_of ar key = expected_entry iter site_1 site_2 repositories_1 key"
      unfolding m by (rule if_P)
    with True show ?thesis unfolding l by simp
  next
    case False
    then have "map_of ar key = None"
      unfolding m by (rule if_not_P)
    with False show ?thesis unfolding l by blast
  qed
  have X: "expected_entry iter site_1 site_2 repositories_1 key \<noteq> None \<longleftrightarrow> ?R"
  proof
    assume "expected_entry iter site_1 site_2 repositories_1 key \<noteq> None"
    then obtain e where "expected_entry iter site_1 site_2 repositories_1 key = Some e" by auto
    from expected_entry_Some[OF this] obtain rclass i1 i2 where
      h: "repository_type repositories_1 key = Inr rclass"
      "rclass \<notin> {''VIRTUAL'', ''REMOTE''}" "list_items site_1 key = Inr i1" "list_items site_2 key = Inr i2"
      and e: "e = repository_entry iter i1 i2" "e \<noteq> []"
      by blast
    from e have "repository_entry iter i1 i2 \<noteq> []" by simp
    then have "fst ` set i2 - fst ` set i1 \<noteq> {} \<or> fst ` set i1 - fst ` set i2 \<noteq> {} \<or>
       (\<exists>uri \<in> fst ` set i1 \<inter> fst ` set i2. content_differs i1 i2 uri)"
      unfolding nonempty .
    with h show ?R by (intro exI[of _ rclass] exI[of _ i1] exI[of _ i2] conjI)
  next
    assume ?R
    then obtain rclass i1 i2 where h: "repository_type repositories_1 key = Inr rclass"
      "rclass \<notin> {''VIRTUAL'', ''REMOTE''}" "list_items site_1 key = Inr i1" "list_items site_2 key = Inr i2"
      and ne: "fst ` set i2 - fst ` set i1 \<noteq> {} \<or> fst ` set i1 - fst ` set i2 \<noteq> {} \<or>
       (\<exists>uri \<in> fst ` set i1 \<inter> fst ` set i2. content_differs i1 i2 uri)"
      by (elim exE conjE)
    from ne have "repository_entry iter i1 i2 \<noteq> []"
      unfolding nonempty .
    then show "expected_entry iter site_1 site_2 repositories_1 key \<noteq> None"
      unfolding expected_entry_compared[OF h] by simp
  qed
  show ?thesis
    unfolding L X ..
qed

theorem artifacts_key_iff_witness:
  "set_iteration (sorted_list_of_set :: string set \<Rightarrow> string list) \<and>
   diff sorted_list_of_set site_a site_b False = Inr report_ab \<and>
   repository_keys site_a = Inr repositories_a \<and>
   repository_keys site_b = Inr repositories_b \<and>
   report_artifacts report_ab = Some artifacts_ab \<and>
   ''lib-a'' \<in> fst ` set artifacts_ab \<and>
   ''lib-a'' \<in> fst ` set repositories_a \<inter> fst ` set repositories_b \<and>
   (\<exists>rclass items_in_1 items_in_2.
      repository_type repositories_a ''lib-a'' = Inr rclass \<and>
      rclass \<notin> {''VIRTUAL'', ''REMOTE''} \<and>
      list_items site_a ''lib-a'' = Inr items_in_1 \<and>
      list_items site_b ''lib-a'' = Inr items_in_2 \<and>
      (fst ` set items_in_2 - fst ` set items_in_1 \<noteq> {} \<or>
       fst ` set items_in_1 - fst ` set items_in_2 \<noteq> {} \<or>
       (\<exists>uri \<in> fst ` set items_in_1 \<inter> fst ` set items_in_2.
          content_differs items_in_1 items_in_2 uri)))"
proof -
  have a: "''lib-a'' \<in> fst ` set artifacts_ab"
    by (simp add: artifacts_ab_def)
  from artifacts_key_iff[OF sorted_list_of_set_iteration diff_site_a_site_b
      repository_keys_site_a repository_keys_site_b report_artifacts_ab, of "''lib-a''"] a
  show ?thesis
    using sorted_list_of_set_iteration diff_site_a_site_b repository_keys_site_a
      repository_keys_site_b report_artifacts_ab by blast
qed

text \<open>
  C7. In the report of a run that ends, for every repository, no path is both in \<open>diffs\<close>
  and in \<open>missing_in_1\<close> or \<open>missing_in_2\<close>: \<open>diffs\<close> holds paths of both listings only,
  \<open>missing_in_1\<close> paths of the second listing only and \<open>missing_in_2\<close> paths of the first
  listing only.
\<close>

theorem diffs_disjoint_from_missing:
  assumes "set_iteration iter"
    and "diff iter site_1 site_2 exclude_artifacts = Inr r"
  shows "set (artifact_field r key ''diffs'') \<inter>
           (set (artifact_field r key ''missing_in_1'') \<union>
            set (artifact_field r key ''missing_in_2'')) = {} \<and>
         (\<forall>items_in_1 items_in_2.
            list_items site_1 key = Inr items_in_1 \<longrightarrow>
            list_items site_2 key = Inr items_in_2 \<longrightarrow>
              set (artifact_field r key ''diffs'') \<subseteq> fst ` set items_in_1 \<inter> fst ` set items_in_2 \<and>
              set (artifact_field r key ''missing_in_1'') \<subseteq> fst ` set items_in_2 - fst ` set items_in_1 \<and>
              set (artifact_field r key ''missing_in_2'') \<subseteq> fst ` set items_in_1 - fst ` set items_in_2)"
proof (cases exclude_artifacts)
  case True
  from diff_Inr_keys[OF assms(2)] obtain repositories_1 repositories_2 where
    k: "repository_keys site_1 = Inr repositories_1" "repository_keys site_2 = Inr repositories_2"
    by blast
  have "report_artifacts r = None"
    using diff_Inr(4)[OF assms(2) k] True by simp
  then have "artifact_field r key field = []" for field
    by (simp add: artifact_field_def)
  then show ?thesis by simp
next
  case False
  with assms(2) have d: "diff iter site_1 site_2 False = Inr r" by simp
  from artifact_field_cases[OF assms(1) d, of key] show ?thesis
  proof
    assume "\<forall>field. artifact_field r key field = []"
    then show ?thesis by simp
  next
    assume "\<exists>i1 i2. list_items site_1 key = Inr i1 \<and> list_items site_2 key = Inr i2 \<and>
            artifact_field r key ''diffs'' =
              filter (content_differs i1 i2) (iter (set (map fst i1) \<inter> set (map fst i2))) \<and>
            artifact_field r key ''missing_in_1'' = iter (set (map fst i2) - set (map fst i1)) \<and>
            artifact_field r key ''missing_in_2'' = iter (set (map fst i1) - set (map fst i2))"
    then obtain i1 i2 where i: "list_items site_1 key = Inr i1" "list_items site_2 key = Inr i2"
      and f: "artifact_field r key ''diffs'' =
              filter (content_differs i1 i2) (iter (set (map fst i1) \<inter> set (map fst i2)))"
        "artifact_field r key ''missing_in_1'' = iter (set (map fst i2) - set (map fst i1))"
        "artifact_field r key ''missing_in_2'' = iter (set (map fst i1) - set (map fst i2))"
      by blast
    have s: "set (iter (set (map fst i1) \<inter> set (map fst i2))) = fst ` set i1 \<inter> fst ` set i2"
      "set (iter (set (map fst i2) - set (map fst i1))) = fst ` set i2 - fst ` set i1"
      "set (iter (set (map fst i1) - set (map fst i2))) = fst ` set i1 - fst ` set i2"
      using set_iterationD(1)[OF assms(1)] by simp_all
    have d: "set (artifact_field r key ''diffs'') \<subseteq> fst ` set i1 \<inter> fst ` set i2"
      unfolding f using s(1) by auto
    have m1: "set (artifact_field r key ''missing_in_1'') = fst ` set i2 - fst ` set i1"
      unfolding f s ..
    have m2: "set (artifact_field r key ''missing_in_2'') = fst ` set i1 - fst ` set i2"
      unfolding f s ..
    show ?thesis
      using d m1 m2 i by auto
  qed
qed

theorem diffs_disjoint_from_missing_witness:
  "set_iteration (sorted_list_of_set :: string set \<Rightarrow> string list) \<and>
   diff sorted_list_of_set site_a site_b False = Inr report_ab \<and>
   artifact_field report_ab ''lib-a'' ''diffs'' = [''/x.jar''] \<and>
   artifact_field report_ab ''lib-a'' ''missing_in_1'' = [''/only2.jar''] \<and>
   artifact_field report_ab ''lib-a'' ''missing_in_2'' = [''/only1.jar''] \<and>
   set (artifact_field report_ab ''lib-a'' ''diffs'') \<inter>
     (set (artifact_field report_ab ''lib-a'' ''missing_in_1'') \<union>
      set (artifact_field report_ab ''lib-a'' ''missing_in_2'')) = {}"
  using diffs_disjoint_from_missing[OF sorted_list_of_set_iteration diff_site_a_site_b, of "''lib-a''"]
    sorted_list_of_set_iteration diff_site_a_site_b artifact_field_lib_a
  by blast

text \<open>
  C10. In a run with the comparison of artifacts that ends, every record of the artifacts
  map has the field \<open>missing_in_1\<close> exactly when some path is on the second side only, the
  field \<open>missing_in_2\<close> exactly when some path is on the first side only, and the field
  \<open>diffs\<close> exactly when some path of both sides has different hashes; it has no other
  field, no field twice, no empty list, and it is not empty.
\<close>

theorem repository_record_fields:
  assumes "set_iteration iter"
    and "diff iter site_1 site_2 False = Inr r"
    and "report_artifacts r = Some ar"
    and "(key, entry) \<in> set ar"
    and "list_items site_1 key = Inr items_in_1"
    and "list_items site_2 key = Inr items_in_2"
  shows "(''missing_in_1'' \<in> fst ` set entry \<longleftrightarrow>
            fst ` set items_in_2 - fst ` set items_in_1 \<noteq> {}) \<and>
         (''missing_in_2'' \<in> fst ` set entry \<longleftrightarrow>
            fst ` set items_in_1 - fst ` set items_in_2 \<noteq> {}) \<and>
         (''diffs'' \<in> fst ` set entry \<longleftrightarrow>
            (\<exists>uri \<in> fst ` set items_in_1 \<inter> fst ` set items_in_2.
               content_differs items_in_1 items_in_2 uri)) \<and>
         fst ` set entry \<subseteq> {''missing_in_1'', ''missing_in_2'', ''diffs''} \<and>
         (\<forall>(field, uris) \<in> set entry. uris \<noteq> []) \<and>
         distinct (map fst entry) \<and>
         entry \<noteq> []"
proof -
  let ?U1 = "set (map fst items_in_1)" and ?U2 = "set (map fst items_in_2)"
  let ?D = "filter (content_differs items_in_1 items_in_2) (iter (?U1 \<inter> ?U2))"
  from diff_Inr_keys[OF assms(2)] obtain repositories_1 repositories_2 where
    k: "repository_keys site_1 = Inr repositories_1" "repository_keys site_2 = Inr repositories_2"
    by blast
  from diff_artifacts[OF assms(1,2) k] assms(3) have
    m: "map_of ar =
             (\<lambda>k. if k \<in> fst ` set repositories_1 \<inter> fst ` set repositories_2
                  then expected_entry iter site_1 site_2 repositories_1 k else None)"
    by auto
  have "distinct (map fst ar)"
    by (rule diff_artifacts_distinct[OF assms(2,3)])
  with assms(4) have some: "map_of ar key = Some entry" by simp
  have B: "key \<in> fst ` set repositories_1 \<inter> fst ` set repositories_2"
  proof (rule ccontr)
    assume "\<not> ?thesis"
    then have "map_of ar key = None" unfolding m by (rule if_not_P)
    with some show False by simp
  qed
  then have "map_of ar key = expected_entry iter site_1 site_2 repositories_1 key"
    unfolding m by (rule if_P)
  with some have "expected_entry iter site_1 site_2 repositories_1 key = Some entry" by simp
  from expected_entry_Some[OF this] assms(5,6) have
    e: "entry = repository_entry iter items_in_1 items_in_2" and ne: "entry \<noteq> []"
    by auto
  have fin: "finite (?U1 \<inter> ?U2)" "finite (?U2 - ?U1)" "finite (?U1 - ?U2)" by simp_all
  have D: "?D \<noteq> [] \<longleftrightarrow>
      (\<exists>uri \<in> fst ` set items_in_1 \<inter> fst ` set items_in_2. content_differs items_in_1 items_in_2 uri)"
    using set_iterationD(1)[OF assms(1) fin(1)] by (auto simp: filter_empty_conv)
  have i1: "?U2 - ?U1 \<noteq> {} \<Longrightarrow> iter (?U2 - ?U1) \<noteq> []"
    using set_iteration_empty[OF assms(1) fin(2)] by simp
  have i2: "?U1 - ?U2 \<noteq> {} \<Longrightarrow> iter (?U1 - ?U2) \<noteq> []"
    using set_iteration_empty[OF assms(1) fin(3)] by simp
  have c1: "''missing_in_1'' \<in> fst ` set entry \<longleftrightarrow> ?U2 - ?U1 \<noteq> {}"
    unfolding e fst_image_map_of repository_entry_fields(1) by simp
  have c2: "''missing_in_2'' \<in> fst ` set entry \<longleftrightarrow> ?U1 - ?U2 \<noteq> {}"
    unfolding e fst_image_map_of repository_entry_fields(2) by simp
  have c3: "''diffs'' \<in> fst ` set entry \<longleftrightarrow> ?D \<noteq> []"
    unfolding e fst_image_map_of repository_entry_fields(3) by simp
  have c4: "fst ` set entry \<subseteq> {''missing_in_1'', ''missing_in_2'', ''diffs''}"
    unfolding e by (rule repository_entry_fields(4))
  have c5: "\<forall>(field, uris) \<in> set entry. uris \<noteq> []"
    unfolding e repository_entry_fields(6) using i1 i2 by (auto split: if_splits)
  have c6: "distinct (map fst entry)"
    unfolding e repository_entry_eq by simp
  show ?thesis
    using c1 c2 c3 c4 c5 c6 ne unfolding D by simp
qed

text \<open>The record of \<open>lib-m\<close> has the field \<open>missing_in_2\<close> only.\<close>

theorem repository_record_fields_witness:
  "set_iteration (sorted_list_of_set :: string set \<Rightarrow> string list) \<and>
   diff sorted_list_of_set site_a site_b False = Inr report_ab \<and>
   report_artifacts report_ab = Some artifacts_ab \<and>
   (''lib-m'', [(''missing_in_2'', [''/m.jar''])]) \<in> set artifacts_ab \<and>
   list_items site_a ''lib-m'' = Inr [(''/m.jar'', artifact ''/m.jar'' ''h1'' ''h2'')] \<and>
   list_items site_b ''lib-m'' = Inr [] \<and>
   ''missing_in_1'' \<notin> fst ` set [(''missing_in_2'', [''/m.jar''])] \<and>
   ''missing_in_2'' \<in> fst ` set [(''missing_in_2'', [''/m.jar''])] \<and>
   ''diffs'' \<notin> fst ` set [(''missing_in_2'', [''/m.jar''])]"
proof -
  have e: "(''lib-m'', [(''missing_in_2'', [''/m.jar''])]) \<in> set artifacts_ab"
    by (simp add: artifacts_ab_def)
  have b: "list_items site_b ''lib-m'' = Inr []"
    by (simp add: list_items_def site_b_def raise_for_status_def)
  from repository_record_fields[OF sorted_list_of_set_iteration diff_site_a_site_b
      report_artifacts_ab e list_items_site_a_lib_m b]
  show ?thesis
    using sorted_list_of_set_iteration diff_site_a_site_b report_artifacts_ab e
      list_items_site_a_lib_m b by simp
qed

section \<open>Properties of import_definitions\<close>

lemma import_definition_no_report_type:
  "definition ''report_type'' = None \<Longrightarrow>
   import_definition post definition submitted = (submitted, Some (KeyError ''report_type''))"
  by (simp add: import_definition_def getitem_def)

text \<open>
  The body of the loop, for a payload that has a report type: what it returns for a type
  that is none of the three, and for each of the three.
\<close>

lemma import_definition_step:
  assumes "definition ''report_type'' = Some report_type"
  shows "((\<exists>t. snd (import_definition post definition submitted) = Some (UnrecognizedReportType t)) \<longleftrightarrow>
            report_type \<notin> {JStr ''license'', JStr ''vulnerability'', JStr ''operational_risk''}) \<and>
         (report_type \<notin> {JStr ''license'', JStr ''vulnerability'', JStr ''operational_risk''} \<longrightarrow>
            import_definition post definition submitted =
              (submitted, Some (UnrecognizedReportType report_type))) \<and>
         (report_type = JStr ''license'' \<longrightarrow>
            import_definition post definition submitted =
              (submitted @ [(''licenses'', definition)],
               if status_ok (post ''licenses'' definition) then None else Some HTTPError)) \<and>
         (report_type = JStr ''vulnerability'' \<longrightarrow>
            import_definition post definition submitted =
              (submitted @ [(''vulnerabilities'', definition)],
               if status_ok (post ''vulnerabilities'' definition) then None else Some HTTPError)) \<and>
         (report_type = JStr ''operational_risk'' \<longrightarrow>
            import_definition post definition submitted =
              (submitted @ [(''operationalRisks'', definition)],
               if status_ok (post ''operationalRisks'' definition) then None else Some HTTPError))"
proof -
  have g: "getitem definition ''report_type'' = Inr report_type"
    using assms by (simp add: getitem_def)
  have bad: "import_definition post definition submitted =
      (submitted, Some (UnrecognizedReportType report_type))"
    if "report_type \<notin> {JStr ''license'', JStr ''vulnerability'', JStr ''operational_risk''}"
    using that by (simp add: import_definition_def g uri_type_of_def)
  have l: "import_definition post definition submitted =
      (submitted @ [(''licenses'', definition)],
       if status_ok (post ''licenses'' definition) then None else Some HTTPError)"
    if "report_type = JStr ''license''"
    using that by (simp add: import_definition_def g uri_type_of_def raise_for_status_def)
  have v: "import_definition post definition submitted =
      (submitted @ [(''vulnerabilities'', definition)],
       if status_ok (post ''vulnerabilities'' definition) then None else Some HTTPError)"
    if "report_type = JStr ''vulnerability''"
    using that by (simp add: import_definition_def g uri_type_of_def raise_for_status_def)
  have o: "import_definition post definition submitted =
      (submitted @ [(''operationalRisks'', definition)],
       if status_ok (post ''operationalRisks'' definition) then None else Some HTTPError)"
    if "report_type = JStr ''operational_risk''"
    using that by (simp add: import_definition_def g uri_type_of_def raise_for_status_def)
  have good: "\<not> (\<exists>t. snd (import_definition post definition submitted) = Some (UnrecognizedReportType t))"
    if "report_type \<in> {JStr ''license'', JStr ''vulnerability'', JStr ''operational_risk''}"
    using that l v o by (auto split: if_splits)
  have iff: "(\<exists>t. snd (import_definition post definition submitted) = Some (UnrecognizedReportType t)) \<longleftrightarrow>
            report_type \<notin> {JStr ''license'', JStr ''vulnerability'', JStr ''operational_risk''}"
    using good bad by (metis snd_conv)
  show ?thesis
    using iff bad l v o by blast
qed

text \<open>The loop over two lists of files, and a run that goes on after files without error.\<close>

lemma import_loop_append:
  "import_loop post (xs @ ys) submitted =
     (case import_loop post xs submitted of
        (submitted', Some e) \<Rightarrow> (submitted', Some e)
      | (submitted', None) \<Rightarrow> import_loop post ys submitted')"
proof (induction xs arbitrary: submitted)
  case Nil
  then show ?case by simp
next
  case (Cons x xs)
  show ?case
  proof (cases "import_definition post x submitted")
    case (Pair s eo)
    then show ?thesis
      using Cons.IH[of s] by (cases eo) simp_all
  qed
qed

lemma import_definitions_append:
  assumes "import_definitions is_dir post processed = (submitted, None)"
  shows "import_definitions is_dir post (processed @ payload # remaining) =
     (case import_definition post payload submitted of
        (submitted', Some e) \<Rightarrow> (submitted', Some e)
      | (submitted', None) \<Rightarrow> import_loop post remaining submitted')"
proof -
  have d: "is_dir" and l: "import_loop post processed [] = (submitted, None)"
    using assms by (auto simp: import_definitions_def split: if_splits)
  show ?thesis
    using d by (simp add: import_definitions_def import_loop_append l)
qed

lemma report_types:
  "record_1 ''report_type'' = Some (JStr ''license'')"
  "record_2 ''report_type'' = Some (JStr ''vulnerability'')"
  "record_3 ''report_type'' = Some (JStr ''operational_risk'')"
  "record_4 ''report_type'' = Some (JStr ''sbom'')"
  by (simp_all add: record_1_def record_2_def record_3_def record_4_def)

lemma import_record_1_accepting:
  "import_definitions True accepting [record_1] = ([(''licenses'', record_1)], None)"
  by (simp add: import_definitions_def import_definition_def getitem_def report_types
      uri_type_of_def raise_for_status_def accepting_def)

text \<open>
  C9. Take a run of \<open>import_definitions\<close> in which the files before a payload are imported
  without error, and let the payload have a report type. The run raises the error of an
  unrecognized report type at the payload exactly when the type is none of \<open>license\<close>,
  \<open>vulnerability\<close> and \<open>operational_risk\<close>; it then ends there and submits nothing for the
  payload. For each of the three types the payload is submitted to its endpoint
  (\<open>licenses\<close>, \<open>vulnerabilities\<close>, \<open>operationalRisks\<close>); the run goes on with the files that
  remain when the service accepts the submission, and ends with \<^verbatim>\<open>HTTPError\<close> when the
  service answers it with an error status.
\<close>

theorem import_definitions_report_type:
  assumes "import_definitions is_dir post processed = (submitted, None)"
    and "definition ''report_type'' = Some report_type"
  shows "((\<exists>t. snd (import_definitions is_dir post (processed @ [definition])) =
                Some (UnrecognizedReportType t)) \<longleftrightarrow>
            report_type \<notin> {JStr ''license'', JStr ''vulnerability'', JStr ''operational_risk''}) \<and>
         (report_type \<notin> {JStr ''license'', JStr ''vulnerability'', JStr ''operational_risk''} \<longrightarrow>
            import_definitions is_dir post (processed @ definition # remaining) =
              (submitted, Some (UnrecognizedReportType report_type))) \<and>
         (report_type = JStr ''license'' \<longrightarrow>
            import_definitions is_dir post (processed @ definition # remaining) =
              (if status_ok (post ''licenses'' definition)
               then import_loop post remaining (submitted @ [(''licenses'', definition)])
               else (submitted @ [(''licenses'', definition)], Some HTTPError))) \<and>
         (report_type = JStr ''vulnerability'' \<longrightarrow>
            import_definitions is_dir post (processed @ definition # remaining) =
              (if status_ok (post ''vulnerabilities'' definition)
               then import_loop post remaining (submitted @ [(''vulnerabilities'', definition)])
               else (submitted @ [(''vulnerabilities'', definition)], Some HTTPError))) \<and>
         (report_type = JStr ''operational_risk'' \<longrightarrow>
            import_definitions is_dir post (processed @ definition # remaining) =
              (if status_ok (post ''operationalRisks'' definition)
               then import_loop post remaining (submitted @ [(''operationalRisks'', definition)])
               else (submitted @ [(''operationalRisks'', definition)], Some HTTPError)))"
proof -
  note step = import_definition_step[of "definition" report_type post submitted, OF assms(2)]
  note app = import_definitions_append[OF assms(1), of "definition"]
  have bad: "import_definitions is_dir post (processed @ definition # remaining) =
      (submitted, Some (UnrecognizedReportType report_type))"
    if "report_type \<notin> {JStr ''license'', JStr ''vulnerability'', JStr ''operational_risk''}"
    for remaining
    using that step by (simp add: app)
  have l: "import_definitions is_dir post (processed @ definition # remaining) =
      (if status_ok (post ''licenses'' definition)
       then import_loop post remaining (submitted @ [(''licenses'', definition)])
       else (submitted @ [(''licenses'', definition)], Some HTTPError))"
    if "report_type = JStr ''license''" for remaining
    using that step by (simp add: app)
  have v: "import_definitions is_dir post (processed @ definition # remaining) =
      (if status_ok (post ''vulnerabilities'' definition)
       then import_loop post remaining (submitted @ [(''vulnerabilities'', definition)])
       else (submitted @ [(''vulnerabilities'', definition)], Some HTTPError))"
    if "report_type = JStr ''vulnerability''" for remaining
    using that step by (simp add: app)
  have o: "import_definitions is_dir post (processed @ definition # remaining) =
      (if status_ok (post ''operationalRisks'' definition)
       then import_loop post remaining (submitted @ [(''operationalRisks'', definition)])
       else (submitted @ [(''operationalRisks'', definition)], Some HTTPError))"
    if "report_type = JStr ''operational_risk''" for remaining
    using that step by (simp add: app)
  have good: "\<not> (\<exists>t. snd (import_definitions is_dir post (processed @ [definition])) =
                Some (UnrecognizedReportType t))"
    if "report_type \<in> {JStr ''license'', JStr ''vulnerability'', JStr ''operational_risk''}"
    using that l[of "[]"] v[of "[]"] o[of "[]"] by (auto split: if_splits)
  have iff: "(\<exists>t. snd (import_definitions is_dir post (processed @ [definition])) =
                Some (UnrecognizedReportType t)) \<longleftrightarrow>
            report_type \<notin> {JStr ''license'', JStr ''vulnerability'', JStr ''operational_risk''}"
    using good bad[of "[]"] by (metis snd_conv)
  show ?thesis
    using iff bad[of remaining] l[of remaining] v[of remaining] o[of remaining] by blast
qed

text \<open>
  After \<open>record_1\<close>: \<open>record_4\<close>, of type \<open>sbom\<close>, ends the run; \<open>record_2\<close> is submitted to
  \<open>vulnerabilities\<close>. With the refusing service, \<open>record_2\<close> is submitted and the run ends
  with \<^verbatim>\<open>HTTPError\<close>.
\<close>

theorem import_definitions_report_type_witness:
  "import_definitions True accepting [record_1] = ([(''licenses'', record_1)], None) \<and>
   record_4 ''report_type'' = Some (JStr ''sbom'') \<and>
   record_2 ''report_type'' = Some (JStr ''vulnerability'') \<and>
   import_definitions True accepting ([record_1] @ record_4 # [record_3]) =
     ([(''licenses'', record_1)], Some (UnrecognizedReportType (JStr ''sbom''))) \<and>
   import_definitions True accepting ([record_1] @ record_2 # []) =
     ([(''licenses'', record_1), (''vulnerabilities'', record_2)], None) \<and>
   import_definitions True refusing ([] @ record_2 # [record_3]) =
     ([(''vulnerabilities'', record_2)], Some HTTPError)"
proof -
  have e: "import_definitions True refusing [] = ([], None)"
    by (simp add: import_definitions_def)
  from import_definitions_report_type[of True accepting "[record_1]" "[(''licenses'', record_1)]"
      record_4 "JStr ''sbom''" "[record_3]", OF import_record_1_accepting report_types(4)]
  have a: "import_definitions True accepting ([record_1] @ record_4 # [record_3]) =
     ([(''licenses'', record_1)], Some (UnrecognizedReportType (JStr ''sbom'')))"
    by simp
  from import_definitions_report_type[of True accepting "[record_1]" "[(''licenses'', record_1)]"
      record_2 "JStr ''vulnerability''" "[]", OF import_record_1_accepting report_types(2)]
  have b: "import_definitions True accepting ([record_1] @ record_2 # []) =
     ([(''licenses'', record_1), (''vulnerabilities'', record_2)], None)"
    by (simp add: accepting_def)
  from import_definitions_report_type[of True refusing "[]" "[]"
      record_2 "JStr ''vulnerability''" "[record_3]", OF e report_types(2)]
  have c: "import_definitions True refusing ([] @ record_2 # [record_3]) =
     ([(''vulnerabilities'', record_2)], Some HTTPError)"
    by (simp add: refusing_def)
  show ?thesis
    using import_record_1_accepting report_types(2,4) a b c by blast
qed

text \<open>
  An import can raise for a payload whose report type is one of the three: \<open>record_1\<close> has
  the type \<open>license\<close>, and the run on it with the refusing service raises \<^verbatim>\<open>HTTPError\<close>. So
  it is not the case that the import raises an error only for a report type outside the
  three.
\<close>

theorem import_definitions_raises_counterexample:
  "record_1 ''report_type'' = Some (JStr ''license'') \<and>
   import_definitions True refusing [record_1] = ([(''licenses'', record_1)], Some HTTPError) \<and>
   \<not> (snd (import_definitions True refusing [record_1]) \<noteq> None \<longleftrightarrow>
        JStr ''license'' \<notin> {JStr ''license'', JStr ''vulnerability'', JStr ''operational_risk''})"
proof -
  have r: "import_definitions True refusing [record_1] = ([(''licenses'', record_1)], Some HTTPError)"
    by (simp add: import_definitions_def import_definition_def getitem_def report_types
      uri_type_of_def raise_for_status_def refusing_def)
  show ?thesis
    unfolding r using report_types(1) by simp
qed

text \<open>
  The same for a whole run: the error of an unrecognized report type comes from a file
  whose report type is none of the three.
\<close>

lemma import_loop_unrecognized:
  "import_loop post definition_files submitted = (submitted', Some (UnrecognizedReportType t)) \<Longrightarrow>
   \<exists>definition \<in> set definition_files.
     definition ''report_type'' = Some t \<and>
     t \<notin> {JStr ''license'', JStr ''vulnerability'', JStr ''operational_risk''}"
proof (induction definition_files arbitrary: submitted)
  case Nil
  then show ?case by simp
next
  case (Cons payload definition_files)
  show ?case
  proof (cases "snd (import_definition post payload submitted)")
    case None
    then obtain s where "import_definition post payload submitted = (s, None)"
      by (metis prod.collapse)
    with Cons.prems have "import_loop post definition_files s = (submitted', Some (UnrecognizedReportType t))"
      by simp
    from Cons.IH[OF this] show ?thesis by auto
  next
    case (Some e)
    then obtain s where s: "import_definition post payload submitted = (s, Some e)"
      by (metis prod.collapse)
    with Cons.prems have e: "e = UnrecognizedReportType t" by simp
    have "payload ''report_type'' = Some t \<and>
        t \<notin> {JStr ''license'', JStr ''vulnerability'', JStr ''operational_risk''}"
      using s unfolding e
      by (auto simp: import_definition_def getitem_def uri_type_of_def raise_for_status_def
          split: option.splits if_splits)
    then show ?thesis by auto
  qed
qed

lemma import_definitions_unrecognized:
  "import_definitions is_dir post definition_files = (submitted, Some (UnrecognizedReportType t)) \<Longrightarrow>
   \<exists>definition \<in> set definition_files.
     definition ''report_type'' = Some t \<and>
     t \<notin> {JStr ''license'', JStr ''vulnerability'', JStr ''operational_risk''}"
  by (auto simp: import_definitions_def dest: import_loop_unrecognized split: if_splits)

end
